theory Spec2Isabelle
  imports Complex_Main "HOL-Library.Sublist" "HOL-Library.AList"
begin

section \<open>JavaScript strings\<close>

text \<open>
  Strings are character lists. \<open>str_includes h n\<close> is \<^verbatim>\<open>h.includes(n)\<close>: the needle
  \<open>n\<close> occurs somewhere in the haystack \<open>h\<close> as a contiguous run of characters.
\<close>

fun str_includes :: "string \<Rightarrow> string \<Rightarrow> bool" where
  "str_includes [] n = (n = [])"
| "str_includes (c # cs) n = (prefix n (c # cs) \<or> str_includes cs n)"

section \<open>JavaScript numbers\<close>

text \<open>
  Numbers are IEEE 754 doubles. A finite double is \<open>Dyadic m e\<close>, the number
  \<open>m * 2 ^ e\<close> with \<open>m\<close> odd, and zero is \<open>Dyadic 0 0\<close>; the other values are
  \<^verbatim>\<open>NaN\<close> and the two infinities. The two zeros are not told apart: \<^verbatim>\<open>*\<close>,
  \<^verbatim>\<open>+\<close>, \<^verbatim>\<open>Math.round\<close>, \<^verbatim>\<open>isNaN\<close> and \<^verbatim>\<open>||\<close> treat them alike up to the
  sign of a zero result.
\<close>

datatype Number = NaN | PosInfinity | NegInfinity | Dyadic int int

text \<open>The number of binary digits of a natural number.\<close>

fun bitLength :: "nat \<Rightarrow> nat" where
  "bitLength n = (if n = 0 then 0 else Suc (bitLength (n div 2)))"

declare bitLength.simps [simp del]

text \<open>The finite double \<open>m * 2 ^ e\<close> in its normal form.\<close>

function trim :: "int \<Rightarrow> int \<Rightarrow> Number" where
  "trim m e = (if m = 0 then Dyadic 0 0 else if even m then trim (m div 2) (e + 1) else Dyadic m e)"
  by pat_completeness auto
termination
  by (relation "measure (\<lambda>(m, e). nat \<bar>m\<bar>)") auto

declare trim.simps [simp del]

text \<open>
  \<open>roundToDouble m e\<close> is the double nearest to the exact value \<open>m * 2 ^ e\<close>, a tie going
  to the even mantissa. The mantissa keeps 53 binary digits and the exponent does not go
  below \<open>-1074\<close>, so \<open>s\<close> low digits are dropped (\<open>dropBits\<close>); a rounded magnitude of
  \<open>2 ^ 1024\<close> or more is an infinity (\<open>finiteOrInfinity\<close>).
\<close>

definition finiteOrInfinity :: "int \<Rightarrow> int \<Rightarrow> Number" where
  "finiteOrInfinity m e =
     (if 1024 < int (bitLength (nat \<bar>m\<bar>)) + e
      then (if 0 < m then PosInfinity else NegInfinity)
      else trim m e)"

definition roundHalfEven :: "nat \<Rightarrow> nat \<Rightarrow> nat \<Rightarrow> nat" where
  "roundHalfEven q r half = (if half < r \<or> (r = half \<and> odd q) then q + 1 else q)"

definition dropBits :: "int \<Rightarrow> int \<Rightarrow> int \<Rightarrow> Number" where
  "dropBits m e s =
     (if s \<le> 0 then finiteOrInfinity m e
      else finiteOrInfinity
             (sgn m * int (roundHalfEven (nat \<bar>m\<bar> div 2 ^ nat s) (nat \<bar>m\<bar> mod 2 ^ nat s)
                             (2 ^ (nat s - 1))))
             (e + s))"

definition roundToDouble :: "int \<Rightarrow> int \<Rightarrow> Number" where
  "roundToDouble m e = dropBits m e (max (int (bitLength (nat \<bar>m\<bar>)) - 53) (- 1074 - e))"

text \<open>An integer literal, and the literals \<^verbatim>\<open>0\<close> and \<^verbatim>\<open>100\<close>.\<close>

definition fromInt :: "int \<Rightarrow> Number" where
  "fromInt n = roundToDouble n 0"

definition literal0 :: Number where
  "literal0 = fromInt 0"

definition literal100 :: Number where
  "literal100 = fromInt 100"

text \<open>\<^verbatim>\<open>x * y\<close> and \<^verbatim>\<open>x + y\<close>: the exact result, rounded.\<close>

fun jsTimes :: "Number \<Rightarrow> Number \<Rightarrow> Number" where
  "jsTimes (Dyadic m1 e1) (Dyadic m2 e2) = roundToDouble (m1 * m2) (e1 + e2)"
| "jsTimes NaN y = NaN"
| "jsTimes x NaN = NaN"
| "jsTimes (Dyadic m e) PosInfinity =
     (if m = 0 then NaN else if 0 < m then PosInfinity else NegInfinity)"
| "jsTimes (Dyadic m e) NegInfinity =
     (if m = 0 then NaN else if 0 < m then NegInfinity else PosInfinity)"
| "jsTimes PosInfinity (Dyadic m e) =
     (if m = 0 then NaN else if 0 < m then PosInfinity else NegInfinity)"
| "jsTimes NegInfinity (Dyadic m e) =
     (if m = 0 then NaN else if 0 < m then NegInfinity else PosInfinity)"
| "jsTimes PosInfinity PosInfinity = PosInfinity"
| "jsTimes PosInfinity NegInfinity = NegInfinity"
| "jsTimes NegInfinity PosInfinity = NegInfinity"
| "jsTimes NegInfinity NegInfinity = PosInfinity"

fun jsPlus :: "Number \<Rightarrow> Number \<Rightarrow> Number" where
  "jsPlus (Dyadic m1 e1) (Dyadic m2 e2) =
     (if e1 \<le> e2 then roundToDouble (m1 + m2 * 2 ^ nat (e2 - e1)) e1
      else roundToDouble (m1 * 2 ^ nat (e1 - e2) + m2) e2)"
| "jsPlus NaN y = NaN"
| "jsPlus x NaN = NaN"
| "jsPlus PosInfinity NegInfinity = NaN"
| "jsPlus NegInfinity PosInfinity = NaN"
| "jsPlus PosInfinity y = PosInfinity"
| "jsPlus NegInfinity y = NegInfinity"
| "jsPlus x PosInfinity = PosInfinity"
| "jsPlus x NegInfinity = NegInfinity"

text \<open>
  \<^verbatim>\<open>Math.round(x)\<close>: the integer nearest to \<open>x\<close>, a half going upwards; the result is
  exact. \<^verbatim>\<open>isNaN(x)\<close>, and \<^verbatim>\<open>x || 0\<close>, where \<^verbatim>\<open>NaN\<close> and zero are falsy.
\<close>

fun mathRound :: "Number \<Rightarrow> Number" where
  "mathRound (Dyadic m e) =
     (if 0 \<le> e then Dyadic m e
      else trim ((m + 2 ^ (nat (- e) - 1)) div 2 ^ nat (- e)) 0)"
| "mathRound x = x"

definition isNaN :: "Number \<Rightarrow> bool" where
  "isNaN x \<longleftrightarrow> x = NaN"

definition orZero :: "Number \<Rightarrow> Number" where
  "orZero x =
     (case x of
        NaN \<Rightarrow> literal0
      | Dyadic m e \<Rightarrow> if m = 0 then literal0 else x
      | _ \<Rightarrow> x)"

section \<open>Categorizer: learned-merchant fuzzy matching\<close>

text \<open>
  \<^verbatim>\<open>interface MerchantMapping { [merchantKey: string]: string }\<close>: a plain object
  used as a dictionary. It is modelled by the list of its own properties in the order
  \<^verbatim>\<open>Object.keys\<close> enumerates them.
\<close>

type_synonym MerchantMapping = "(string \<times> string) list"

definition merchantKeys :: "MerchantMapping \<Rightarrow> string list" where
  "merchantKeys learnedMappings = map fst learnedMappings"

text \<open>
  The property read \<^verbatim>\<open>learnedMappings[key]\<close> looks among the own properties first
  and then follows the prototype chain, which for a plain object ends in
  \<^verbatim>\<open>Object.prototype\<close>. The value read is the stored category id, or, for a key that
  is no own property and names a member of \<^verbatim>\<open>Object.prototype\<close>, that member (a
  function, or the prototype object itself for \<^verbatim>\<open>__proto__\<close>): \<open>Inherited\<close> with the
  name of the member. \<open>None\<close> stands for \<^verbatim>\<open>undefined\<close>. \<open>objectPrototype\<close> lists
  the members that ECMAScript gives \<^verbatim>\<open>Object.prototype\<close>.
\<close>

datatype PropertyValue = Category string | Inherited string

definition objectPrototype :: "string list" where
  "objectPrototype =
     [''constructor'', ''hasOwnProperty'', ''isPrototypeOf'', ''propertyIsEnumerable'',
      ''toLocaleString'', ''toString'', ''valueOf'', ''__proto__'', ''__defineGetter__'',
      ''__defineSetter__'', ''__lookupGetter__'', ''__lookupSetter__'']"

definition getProp :: "MerchantMapping \<Rightarrow> string \<Rightarrow> PropertyValue option" where
  "getProp learnedMappings key =
     (case map_of learnedMappings key of
        Some categoryId \<Rightarrow> Some (Category categoryId)
      | None \<Rightarrow> if key \<in> set objectPrototype then Some (Inherited key) else None)"

text \<open>
  The condition \<^verbatim>\<open>if (learnedMappings[titleKey])\<close>: a non-empty string is truthy, and
  so is every inherited member.
\<close>

definition truthyValue :: "PropertyValue \<Rightarrow> bool" where
  "truthyValue v = (case v of Category categoryId \<Rightarrow> categoryId \<noteq> [] | Inherited name \<Rightarrow> True)"

definition exactMatch :: "MerchantMapping \<Rightarrow> string \<Rightarrow> bool" where
  "exactMatch learnedMappings titleKey =
     (case getProp learnedMappings titleKey of None \<Rightarrow> False | Some v \<Rightarrow> truthyValue v)"

text \<open>
  The loop \<^verbatim>\<open>for (const storedKey of merchantKeys)\<close> of \<^verbatim>\<open>findMatchingCategory\<close>;
  the first key that passes a test decides, and \<open>None\<close> is the final
  \<^verbatim>\<open>return null\<close>.
\<close>

fun scanKeys :: "string \<Rightarrow> MerchantMapping \<Rightarrow> string list \<Rightarrow> PropertyValue option" where
  "scanKeys titleKey learnedMappings [] = None"
| "scanKeys titleKey learnedMappings (storedKey # rest) =
     (if length storedKey < 4 then scanKeys titleKey learnedMappings rest
      else if str_includes titleKey storedKey then getProp learnedMappings storedKey
      else if 5 \<le> length titleKey \<and> str_includes storedKey titleKey
        then getProp learnedMappings storedKey
      else scanKeys titleKey learnedMappings rest)"

definition findMatchingCategory :: "string \<Rightarrow> MerchantMapping \<Rightarrow> PropertyValue option" where
  "findMatchingCategory titleKey learnedMappings =
     (if exactMatch learnedMappings titleKey then getProp learnedMappings titleKey
      else scanKeys titleKey learnedMappings (merchantKeys learnedMappings))"

text \<open>The test a stored key has to pass in the loop, with containment stated as the
  existence of a surrounding prefix and suffix (\<open>sublist\<close>).\<close>

definition containmentHit :: "string \<Rightarrow> string \<Rightarrow> bool" where
  "containmentHit titleKey storedKey \<longleftrightarrow>
     4 \<le> length storedKey \<and>
     (sublist storedKey titleKey \<or> (5 \<le> length titleKey \<and> sublist titleKey storedKey))"

section \<open>Balance reconciliation: \<^verbatim>\<open>restoreBalancesFromSnapshot\<close>\<close>

text \<open>
  A document of the remote balances collection. \<open>doc_id\<close> is \<^verbatim>\<open>$id\<close>, \<open>doc_userId\<close>
  and \<open>doc_accountKey\<close> are \<^verbatim>\<open>userId\<close> and \<^verbatim>\<open>accountKey\<close>; an attribute that is
  \<^verbatim>\<open>null\<close> or missing is \<open>None\<close>. The attributes \<^verbatim>\<open>accountName\<close>,
  \<^verbatim>\<open>accountType\<close>, \<^verbatim>\<open>provider\<close> and \<^verbatim>\<open>currency\<close> are neither read nor written
  by the function and are left out. \<^verbatim>\<open>balance\<close> and \<^verbatim>\<open>previousBalance\<close> are
  numbers, amounts in cents.
\<close>

record BalanceDoc =
  doc_id :: string
  doc_userId :: string
  doc_accountKey :: string
  balance :: Number
  lastUpdated :: string
  previousBalance :: "Number option"
  previousBalanceTimestamp :: "string option"
  importBatchId :: "string option"

text \<open>
  What the function cannot control: whether the collection ids are configured, whether
  \<^verbatim>\<open>listDocuments\<close> throws, for which document \<^verbatim>\<open>updateDocument\<close> throws, and the
  clock: \<open>nowISO i\<close> is \<^verbatim>\<open>new Date().toISOString()\<close> as read for the update of the
  document with id \<open>i\<close>.
\<close>

record BalanceRemote =
  balancesConfigured :: bool
  listThrows :: bool
  updateThrows :: "string \<Rightarrow> bool"
  nowISO :: "string \<Rightarrow> string"

text \<open>
  \<^verbatim>\<open>listDocuments\<close> with the two equality queries on \<^verbatim>\<open>userId\<close> and
  \<^verbatim>\<open>importBatchId\<close>, taken to return every matching document.
\<close>

definition inBatch :: "string \<Rightarrow> string \<Rightarrow> BalanceDoc \<Rightarrow> bool" where
  "inBatch user batch d \<longleftrightarrow> doc_userId d = user \<and> importBatchId d = Some batch"

definition listBatchBalances :: "BalanceDoc list \<Rightarrow> string \<Rightarrow> string \<Rightarrow> BalanceDoc list" where
  "listBatchBalances store user batch = filter (inBatch user batch) store"

text \<open>\<^verbatim>\<open>updateDocument\<close>: the document with the given \<^verbatim>\<open>$id\<close> gets the new attributes.\<close>

definition updateDocument ::
  "BalanceDoc list \<Rightarrow> string \<Rightarrow> (BalanceDoc \<Rightarrow> BalanceDoc) \<Rightarrow> BalanceDoc list" where
  "updateDocument store docId change = map (\<lambda>d. if doc_id d = docId then change d else d) store"

definition restoreFields :: "string \<Rightarrow> Number \<Rightarrow> BalanceDoc \<Rightarrow> BalanceDoc" where
  "restoreFields now prev d =
     d\<lparr>balance := prev, lastUpdated := now, previousBalance := None,
       previousBalanceTimestamp := None, importBatchId := None\<rparr>"

text \<open>
  The loop \<^verbatim>\<open>for (const doc of balances)\<close> with the counter \<^verbatim>\<open>restored\<close>, and the
  \<^verbatim>\<open>return restored > 0\<close> after it. An \<^verbatim>\<open>updateDocument\<close> that throws ends in the
  \<^verbatim>\<open>catch\<close>, which returns \<^verbatim>\<open>false\<close>; what was written before stays written.
\<close>

fun restoreLoop ::
  "BalanceRemote \<Rightarrow> BalanceDoc list \<Rightarrow> BalanceDoc list \<Rightarrow> nat \<Rightarrow> bool \<times> BalanceDoc list" where
  "restoreLoop remote [] store restored = (0 < restored, store)"
| "restoreLoop remote (doc # rest) store restored =
     (case previousBalance doc of
        None \<Rightarrow> restoreLoop remote rest store restored
      | Some prev \<Rightarrow>
          if updateThrows remote (doc_id doc) then (False, store)
          else restoreLoop remote rest
                 (updateDocument store (doc_id doc)
                    (restoreFields (nowISO remote (doc_id doc)) prev))
                 (restored + 1))"

text \<open>
  The function returns the promised boolean together with the collection it leaves
  behind; \<open>Inl\<close> is the \<^verbatim>\<open>Error\<close> thrown before the \<^verbatim>\<open>try\<close>.
\<close>

definition restoreBalancesFromSnapshot ::
  "BalanceRemote \<Rightarrow> BalanceDoc list \<Rightarrow> string \<Rightarrow> string \<Rightarrow> string + bool \<times> BalanceDoc list" where
  "restoreBalancesFromSnapshot remote store user batch =
     (if \<not> balancesConfigured remote then Inl ''Appwrite env not configured''
      else if listThrows remote then Inr (False, store)
      else let balances = listBatchBalances store user batch in
        if length balances = 0 then Inr (False, store)
        else Inr (restoreLoop remote balances store 0))"

text \<open>
  A sample collection: four documents of batch \<open>b1\<close> of user \<open>u\<close>, three of them with a
  snapshot, and a document of another user. A remote that works, and one whose update
  of document \<open>d4\<close> throws.
\<close>

definition sampleBalances :: "BalanceDoc list" where
  "sampleBalances =
     [\<lparr>doc_id = ''d1'', doc_userId = ''u'', doc_accountKey = ''k1'', balance = fromInt 7000,
        lastUpdated = ''t1'', previousBalance = Some (fromInt 0), previousBalanceTimestamp = Some ''t1'',
        importBatchId = Some ''b1''\<rparr>,
      \<lparr>doc_id = ''d2'', doc_userId = ''u'', doc_accountKey = ''k2'', balance = fromInt 300,
        lastUpdated = ''t1'', previousBalance = None, previousBalanceTimestamp = None,
        importBatchId = Some ''b1''\<rparr>,
      \<lparr>doc_id = ''d3'', doc_userId = ''v'', doc_accountKey = ''k1'', balance = fromInt 55,
        lastUpdated = ''t0'', previousBalance = Some (fromInt 10), previousBalanceTimestamp = Some ''t0'',
        importBatchId = Some ''b0''\<rparr>,
      \<lparr>doc_id = ''d4'', doc_userId = ''u'', doc_accountKey = ''k4'', balance = fromInt 900,
        lastUpdated = ''t1'', previousBalance = Some (fromInt 40), previousBalanceTimestamp = Some ''t1'',
        importBatchId = Some ''b1''\<rparr>,
      \<lparr>doc_id = ''d5'', doc_userId = ''u'', doc_accountKey = ''k5'', balance = fromInt 12,
        lastUpdated = ''t1'', previousBalance = Some (fromInt 11), previousBalanceTimestamp = Some ''t1'',
        importBatchId = Some ''b1''\<rparr>]"

definition reliableRemote :: BalanceRemote where
  "reliableRemote =
     \<lparr>balancesConfigured = True, listThrows = False, updateThrows = (\<lambda>i. False),
      nowISO = (\<lambda>i. ''t2-'' @ i)\<rparr>"

definition failingRemote :: BalanceRemote where
  "failingRemote = reliableRemote\<lparr>updateThrows := (\<lambda>i. i = ''d4'')\<rparr>"

text \<open>
  The documents the loop has to restore, in the order they are listed: those of the
  batch that have a snapshot. And the documents it does restore: those that come before
  the first one whose update throws.
\<close>

definition hasSnapshot :: "BalanceDoc \<Rightarrow> bool" where
  "hasSnapshot d \<longleftrightarrow> previousBalance d \<noteq> None"

definition snapshots :: "BalanceDoc list \<Rightarrow> string \<Rightarrow> string \<Rightarrow> BalanceDoc list" where
  "snapshots store user batch = filter (\<lambda>d. inBatch user batch d \<and> hasSnapshot d) store"

definition updatedDocuments :: "BalanceRemote \<Rightarrow> BalanceDoc list \<Rightarrow> BalanceDoc list" where
  "updatedDocuments remote docs = takeWhile (\<lambda>d. \<not> updateThrows remote (doc_id d)) docs"

text \<open>
  What a list of restored documents does to a document \<open>x\<close> of the collection: the
  first of them with the id of \<open>x\<close> decides.
\<close>

definition restoredBy :: "BalanceRemote \<Rightarrow> BalanceDoc list \<Rightarrow> BalanceDoc \<Rightarrow> BalanceDoc" where
  "restoredBy remote ds x =
     (case find (\<lambda>d. doc_id d = doc_id x) ds of
        None \<Rightarrow> x
      | Some d \<Rightarrow> (case previousBalance d of
                     None \<Rightarrow> x
                   | Some prev \<Rightarrow> restoreFields (nowISO remote (doc_id d)) prev x))"

section \<open>Sync queue\<close>

subsection \<open>Data\<close>

text \<open>
  \<^verbatim>\<open>syncStatus: 'pending' | 'syncing' | 'completed' | 'failed'\<close>, and a queued
  transaction: \<open>tx_id\<close>, \<open>tx_userId\<close> and \<open>tx_error\<close> are the fields \<^verbatim>\<open>id\<close>,
  \<^verbatim>\<open>userId\<close> and \<^verbatim>\<open>error\<close>. The fields of the draft itself (title, amount, date and
  so on) are passed on to the upload unchanged and never inspected; \<open>tx_title\<close> stands
  for them.
\<close>

datatype SyncStatusValue = Pending | Syncing | Completed | Failed

record QueuedTransaction =
  tx_id :: string
  tx_title :: string
  tx_userId :: string
  syncStatus :: SyncStatusValue
  attempts :: nat
  tx_error :: "string option"

definition MAX_RETRY_ATTEMPTS :: nat where
  "MAX_RETRY_ATTEMPTS = 3"

text \<open>
  The stored delete operation, as \<^verbatim>\<open>getDeleteStatus\<close> returns it (\<open>None\<close> for
  \<^verbatim>\<open>null\<close>).
\<close>

datatype DeleteStatus = DelPending | DelInProgress | DelCompleted | DelFailed

record DeleteOperation =
  op_userId :: string
  op_status :: DeleteStatus
  op_totalDeleted :: nat
  op_totalToDelete :: nat

text \<open>
  \<^verbatim>\<open>createTransaction\<close> either returns or throws; a thrown error may have no message.
\<close>

datatype CreateOutcome = Created | CreateThrew "string option"

text \<open>
  What a sync run cannot control. The run observes its surroundings at its awaits; the
  \<open>clock\<close> of the world below counts them. \<open>deleteStatusAt n\<close> is what
  \<^verbatim>\<open>getDeleteStatus()\<close> returns at time \<open>n\<close>, and \<open>cancelSyncAt n\<close> is the value the
  polling timer has given the flag \<^verbatim>\<open>cancelSync\<close> by then. \<open>createDocument user i\<close> is
  the outcome of uploading entry \<open>i\<close> of the array handed to the bulk upload for
  \<open>user\<close>. \<open>transactionsConfigured\<close> is \<^verbatim>\<open>databaseId && transactionsTableId\<close>.
\<close>

record SyncEnv =
  transactionsConfigured :: bool
  deleteStatusAt :: "nat \<Rightarrow> DeleteOperation option"
  cancelSyncAt :: "nat \<Rightarrow> bool"
  createDocument :: "string \<Rightarrow> nat \<Rightarrow> CreateOutcome"

text \<open>
  The world a run changes: the stored queue (\<^verbatim>\<open>SYNC_QUEUE_KEY\<close>), the clock, and the
  list of uploads requested from the remote store, as pairs of user id and document
  id. Local storage is taken to work: reads return what was written and writes do not
  throw. The stored progress record and the notifications are written but never read
  by the run and are left out.
\<close>

record SyncWorld =
  queue :: "QueuedTransaction list"
  clock :: nat
  uploads :: "(string \<times> string) list"

definition tick :: "SyncWorld \<Rightarrow> SyncWorld" where
  "tick w = w\<lparr>clock := clock w + 1\<rparr>"

subsection \<open>\<^verbatim>\<open>createBulkTransactions\<close>\<close>

text \<open>
  \<^verbatim>\<open>BulkCreateResult\<close>; an entry of \<^verbatim>\<open>errors\<close> is represented by its message, and
  \<^verbatim>\<open>failed\<close> is returned as \<^verbatim>\<open>errors.length\<close>.
\<close>

record BulkCreateResult =
  created :: nat
  errors :: "string list"
  successfulIndices :: "nat list"

definition failed :: "BulkCreateResult \<Rightarrow> nat" where
  "failed r = length (errors r)"

definition BATCH_SIZE :: nat where
  "BATCH_SIZE = 2"

text \<open>\<^verbatim>\<open>err?.message || "Unknown error"\<close>\<close>

definition errorMessage :: "string option \<Rightarrow> string" where
  "errorMessage m =
     (case m of None \<Rightarrow> ''Unknown error'' | Some s \<Rightarrow> if s = [] then ''Unknown error'' else s)"

definition isDuplicateMessage :: "string \<Rightarrow> bool" where
  "isDuplicateMessage message \<longleftrightarrow>
     str_includes message ''Document with the requested ID already exists''
     \<or> str_includes message ''already exists''"

text \<open>
  One entry of \<^verbatim>\<open>batchResults\<close>: \<^verbatim>\<open>{ success: true, index }\<close> or \<^verbatim>\<open>null\<close>.
  \<open>uploadItem\<close> is the function mapped over the batch; it returns the entry and the
  messages it pushes to \<^verbatim>\<open>errors\<close>.
\<close>

datatype BatchItem = ItemSuccess nat | ItemNull

definition uploadItem :: "SyncEnv \<Rightarrow> string \<Rightarrow> bool \<Rightarrow> nat \<Rightarrow> BatchItem \<times> string list" where
  "uploadItem env userId cancelled index =
     (if cancelled then (ItemNull, [])
      else case createDocument env userId index of
        Created \<Rightarrow> (ItemSuccess index, [])
      | CreateThrew m \<Rightarrow>
          let message = errorMessage m in
          if isDuplicateMessage message then (ItemSuccess index, [])
          else (ItemNull, [message]))"

definition successIndices :: "BatchItem list \<Rightarrow> nat list" where
  "successIndices results = concat (map (\<lambda>r. case r of ItemSuccess i \<Rightarrow> [i] | ItemNull \<Rightarrow> []) results)"

text \<open>
  One round of the loop \<^verbatim>\<open>for (let i = 0; i < transactions.length; i += BATCH_SIZE)\<close>
  after its cancellation test: the uploads of \<^verbatim>\<open>batch\<close>, the bookkeeping, and the
  caller's callback \<open>onBatchSuccess\<close>. \<open>cancelled\<close> is what \<^verbatim>\<open>shouldCancel()\<close> returns
  inside \<^verbatim>\<open>batch.map\<close>. The uploads of a batch are awaited together; time passes, and
  the clock is advanced once per batch. The errors of a batch are listed in index order.
\<close>

definition processBatch ::
  "SyncEnv \<Rightarrow> string \<Rightarrow> bool \<Rightarrow> (nat list \<Rightarrow> SyncWorld \<Rightarrow> SyncWorld)
   \<Rightarrow> nat \<Rightarrow> QueuedTransaction list \<Rightarrow> BulkCreateResult \<Rightarrow> SyncWorld
   \<Rightarrow> BulkCreateResult \<times> SyncWorld" where
  "processBatch env userId cancelled onBatchSuccess i batch res w =
     (let outcomes = map (\<lambda>batchIndex. uploadItem env userId cancelled (i + batchIndex))
                       [0..<length batch];
          batchResults = map fst outcomes;
          successCount = length (filter (\<lambda>r. r \<noteq> ItemNull) batchResults);
          batchSuccessfulIndices = successIndices batchResults;
          res' = res\<lparr>created := created res + successCount,
                     errors := errors res @ concat (map snd outcomes),
                     successfulIndices := successfulIndices res @ batchSuccessfulIndices\<rparr>;
          w1 = tick (w\<lparr>uploads := uploads w @
                       (if cancelled then [] else map (\<lambda>t. (userId, tx_id t)) batch)\<rparr>);
          w2 = (if 0 < length batchSuccessfulIndices
                then onBatchSuccess batchSuccessfulIndices w1 else w1)
      in (res', w2))"

text \<open>
  The loop itself, on the part of the array from index \<open>i\<close> on. \<open>shouldCancel\<close> reads
  the caller's flag in the current world; the test at the head of the loop and the
  tests inside \<^verbatim>\<open>batch.map\<close> run without an await between them, so they read the same
  value.
\<close>

function bulkLoop ::
  "SyncEnv \<Rightarrow> string \<Rightarrow> (SyncWorld \<Rightarrow> bool) \<Rightarrow> (nat list \<Rightarrow> SyncWorld \<Rightarrow> SyncWorld)
   \<Rightarrow> nat \<Rightarrow> QueuedTransaction list \<Rightarrow> BulkCreateResult \<Rightarrow> SyncWorld
   \<Rightarrow> BulkCreateResult \<times> SyncWorld" where
  "bulkLoop env userId shouldCancel onBatchSuccess i [] res w = (res, w)"
| "bulkLoop env userId shouldCancel onBatchSuccess i (tx # txs) res w =
     (if shouldCancel w then (res, w)
      else
        case processBatch env userId (shouldCancel w) onBatchSuccess i
               (take BATCH_SIZE (tx # txs)) res w of
          (res', w') \<Rightarrow>
            bulkLoop env userId shouldCancel onBatchSuccess (i + BATCH_SIZE)
              (drop BATCH_SIZE (tx # txs)) res' w')"
  by pat_completeness auto
termination
  by (relation "measure (\<lambda>(env, userId, shouldCancel, onBatchSuccess, i, txs, res, w). length txs)")
    (auto simp: BATCH_SIZE_def)

text \<open>\<open>Inl\<close> is the \<^verbatim>\<open>Error\<close> thrown when the collection ids are not configured.\<close>

definition createBulkTransactions ::
  "SyncEnv \<Rightarrow> string \<Rightarrow> QueuedTransaction list \<Rightarrow> (SyncWorld \<Rightarrow> bool)
   \<Rightarrow> (nat list \<Rightarrow> SyncWorld \<Rightarrow> SyncWorld) \<Rightarrow> SyncWorld
   \<Rightarrow> string + BulkCreateResult \<times> SyncWorld" where
  "createBulkTransactions env userId transactions shouldCancel onBatchSuccess w =
     (if \<not> transactionsConfigured env then Inl ''Appwrite env not configured''
      else Inr (bulkLoop env userId shouldCancel onBatchSuccess 0 transactions
                  \<lparr>created = 0, errors = [], successfulIndices = []\<rparr> w))"

text \<open>
  Whether the upload of entry \<open>i\<close> counts as done: the remote created the document, or
  it refused with a message that says the document already exists. For the other
  entries, the message recorded in \<^verbatim>\<open>errors\<close>.
\<close>

definition accepted :: "SyncEnv \<Rightarrow> string \<Rightarrow> nat \<Rightarrow> bool" where
  "accepted env userId i =
     (case createDocument env userId i of
        Created \<Rightarrow> True
      | CreateThrew m \<Rightarrow> isDuplicateMessage (errorMessage m))"

definition rejectionMessage :: "SyncEnv \<Rightarrow> string \<Rightarrow> nat \<Rightarrow> string" where
  "rejectionMessage env userId i =
     (case createDocument env userId i of Created \<Rightarrow> [] | CreateThrew m \<Rightarrow> errorMessage m)"

subsection \<open>\<^verbatim>\<open>startSyncingTransactions\<close>\<close>

text \<open>The filter that selects \<^verbatim>\<open>pendingTransactions\<close>.\<close>

definition isPendingForSync :: "QueuedTransaction \<Rightarrow> bool" where
  "isPendingForSync t \<longleftrightarrow>
     syncStatus t = Pending \<or> syncStatus t = Syncing
     \<or> (syncStatus t = Failed \<and> attempts t < MAX_RETRY_ATTEMPTS)"

text \<open>\<^verbatim>\<open>xs.find((p) => p.id === t.id)\<close> as a truth value, and \<^verbatim>\<open>findIndex\<close>.\<close>

definition hasId :: "QueuedTransaction list \<Rightarrow> string \<Rightarrow> bool" where
  "hasId xs i \<longleftrightarrow> find (\<lambda>p. tx_id p = i) xs \<noteq> None"

fun findIndex :: "('a \<Rightarrow> bool) \<Rightarrow> 'a list \<Rightarrow> nat option" where
  "findIndex P [] = None"
| "findIndex P (x # xs) = (if P x then Some 0 else map_option Suc (findIndex P xs))"

definition markSyncing :: "QueuedTransaction list \<Rightarrow> QueuedTransaction list \<Rightarrow> QueuedTransaction list" where
  "markSyncing pendingTransactions q =
     map (\<lambda>t. if hasId pendingTransactions (tx_id t) then t\<lparr>syncStatus := Syncing\<rparr> else t) q"

text \<open>The reset done on both cancellation paths.\<close>

definition resetSyncing :: "QueuedTransaction list \<Rightarrow> QueuedTransaction list" where
  "resetSyncing q = map (\<lambda>t. if syncStatus t = Syncing then t\<lparr>syncStatus := Pending\<rparr> else t) q"

text \<open>
  \<^verbatim>\<open>groupedByUser\<close>: a \<^verbatim>\<open>Map\<close> from user id to that user's transactions, in the order
  in which the users first appear.
\<close>

definition groupInsert ::
  "(string \<times> QueuedTransaction list) list \<Rightarrow> QueuedTransaction
   \<Rightarrow> (string \<times> QueuedTransaction list) list" where
  "groupInsert groups t =
     (if map_of groups (tx_userId t) = None then groups @ [(tx_userId t, [t])]
      else map (\<lambda>(u, ts). if u = tx_userId t then (u, ts @ [t]) else (u, ts)) groups)"

definition groupByUser :: "QueuedTransaction list \<Rightarrow> (string \<times> QueuedTransaction list) list" where
  "groupByUser pendingTransactions = foldl groupInsert [] pendingTransactions"

text \<open>The callback handed to the bulk upload as \<^verbatim>\<open>onBatchSuccess\<close>.\<close>

definition markBatchCompleted ::
  "QueuedTransaction list \<Rightarrow> nat list \<Rightarrow> SyncWorld \<Rightarrow> SyncWorld" where
  "markBatchCompleted userTransactions batchSuccessIndices w =
     w\<lparr>queue := map (\<lambda>t.
          case findIndex (\<lambda>ut. tx_id ut = tx_id t) userTransactions of
            None \<Rightarrow> t
          | Some transactionIndex \<Rightarrow>
              if transactionIndex \<in> set batchSuccessIndices
              then t\<lparr>syncStatus := Completed, attempts := attempts t + 1\<rparr>
              else t) (queue w)\<rparr>"

text \<open>The queue update after a bulk upload that returned.\<close>

definition finalizeUser ::
  "QueuedTransaction list \<Rightarrow> BulkCreateResult \<Rightarrow> QueuedTransaction list \<Rightarrow> QueuedTransaction list" where
  "finalizeUser userTransactions result q =
     map (\<lambda>t.
       case findIndex (\<lambda>ut. tx_id ut = tx_id t) userTransactions of
         None \<Rightarrow> t
       | Some transactionIndex \<Rightarrow>
           if transactionIndex \<in> set (successfulIndices result)
           then t\<lparr>syncStatus := Completed, attempts := attempts t + 1\<rparr>
           else if 0 < length (errors result)
           then t\<lparr>syncStatus := Failed, attempts := attempts t + 1,
                  tx_error := Some ''Failed to create transaction''\<rparr>
           else t) q"

text \<open>The \<^verbatim>\<open>catch\<close> of the per-user \<^verbatim>\<open>try\<close>: the queue update after an upload that threw.\<close>

definition isNetworkError :: "string \<Rightarrow> bool" where
  "isNetworkError errorMsg \<longleftrightarrow>
     str_includes errorMsg ''Network request failed'' \<or> str_includes errorMsg ''network''
     \<or> str_includes errorMsg ''timeout''"

definition requeueAfterError ::
  "QueuedTransaction list \<Rightarrow> string \<Rightarrow> QueuedTransaction list \<Rightarrow> QueuedTransaction list" where
  "requeueAfterError userTransactions errorMsg q =
     map (\<lambda>t.
       if hasId userTransactions (tx_id t) then
         (if isNetworkError errorMsg \<or> attempts t < MAX_RETRY_ATTEMPTS - 1
          then t\<lparr>syncStatus := Pending, attempts := attempts t + 1, tx_error := Some errorMsg\<rparr>
          else t\<lparr>syncStatus := Failed, attempts := attempts t + 1, tx_error := Some errorMsg\<rparr>)
       else t) q"

text \<open>
  \<^verbatim>\<open>currentDeleteStatus && (status === 'in-progress' || status === 'pending')\<close>, and
  the test made before anything else,
  \<^verbatim>\<open>initialDeleteStatus && initialDeleteStatus.status !== 'completed'\<close>.
\<close>

definition deleteActive :: "DeleteOperation option \<Rightarrow> bool" where
  "deleteActive d =
     (case d of None \<Rightarrow> False
      | Some operation \<Rightarrow> op_status operation = DelInProgress \<or> op_status operation = DelPending)"

definition deleteNotCompleted :: "DeleteOperation option \<Rightarrow> bool" where
  "deleteNotCompleted d =
     (case d of None \<Rightarrow> False | Some operation \<Rightarrow> op_status operation \<noteq> DelCompleted)"

text \<open>
  The loop \<^verbatim>\<open>for (const [userId, userTransactions] of groupedByUser.entries())\<close> with
  the counters \<^verbatim>\<open>totalSucceeded\<close> and \<^verbatim>\<open>totalFailed\<close>; the result is the returned
  \<^verbatim>\<open>{ succeeded, failed }\<close> and the world left behind.
\<close>

fun syncUsers ::
  "SyncEnv \<Rightarrow> (string \<times> QueuedTransaction list) list \<Rightarrow> nat \<Rightarrow> nat \<Rightarrow> SyncWorld
   \<Rightarrow> (nat \<times> nat) \<times> SyncWorld" where
  "syncUsers env [] totalSucceeded totalFailed w = ((totalSucceeded, totalFailed), w)"
| "syncUsers env ((userId, userTransactions) # rest) totalSucceeded totalFailed w =
     (let currentDeleteStatus = deleteStatusAt env (clock w); w1 = tick w in
      if deleteActive currentDeleteStatus
      then ((totalSucceeded, totalFailed), w1\<lparr>queue := resetSyncing (queue w1)\<rparr>)
      else
        case createBulkTransactions env userId userTransactions
               (\<lambda>w. cancelSyncAt env (clock w)) (markBatchCompleted userTransactions) w1 of
          Inl errorMsg \<Rightarrow>
            syncUsers env rest totalSucceeded (totalFailed + length userTransactions)
              (w1\<lparr>queue := requeueAfterError userTransactions errorMsg (queue w1)\<rparr>)
        | Inr (result, w2) \<Rightarrow>
            if cancelSyncAt env (clock w2)
            then ((totalSucceeded, totalFailed), w2\<lparr>queue := resetSyncing (queue w2)\<rparr>)
            else syncUsers env rest (totalSucceeded + created result)
                   (totalFailed + failed result)
                   (w2\<lparr>queue := finalizeUser userTransactions result (queue w2)\<rparr>))"

definition startSyncingTransactions :: "SyncEnv \<Rightarrow> SyncWorld \<Rightarrow> (nat \<times> nat) \<times> SyncWorld" where
  "startSyncingTransactions env w =
     (let initialDeleteStatus = deleteStatusAt env (clock w); w0 = tick w in
      if deleteNotCompleted initialDeleteStatus then ((0, 0), w0)
      else
        let pendingTransactions = filter isPendingForSync (queue w0) in
        if length pendingTransactions = 0 then ((0, 0), w0)
        else syncUsers env (groupByUser pendingTransactions) 0 0
               (w0\<lparr>queue := markSyncing pendingTransactions (queue w0)\<rparr>))"

subsection \<open>Sample runs\<close>

text \<open>
  A queue of five pending transactions of one user; a queue with earlier failed
  attempts; a delete operation that starts after the first batch, one that is already
  queued, a store that refuses the second upload as a duplicate and the third with an
  error without message, and an application whose collection ids are not configured.
\<close>

definition mkTx :: "string \<Rightarrow> string \<Rightarrow> nat \<Rightarrow> QueuedTransaction" where
  "mkTx i u n =
     \<lparr>tx_id = i, tx_title = ''t'', tx_userId = u, syncStatus = Pending, attempts = n,
      tx_error = None\<rparr>"

definition fivePending :: SyncWorld where
  "fivePending =
     \<lparr>queue = [mkTx ''a'' ''u1'' 0, mkTx ''b'' ''u1'' 0, mkTx ''c'' ''u1'' 0,
               mkTx ''d'' ''u1'' 0, mkTx ''e'' ''u1'' 0],
      clock = 0, uploads = []\<rparr>"

definition retried :: SyncWorld where
  "retried = \<lparr>queue = [mkTx ''a'' ''u1'' 1, mkTx ''b'' ''u1'' 2], clock = 0, uploads = []\<rparr>"

definition deleteStarted :: DeleteOperation where
  "deleteStarted =
     \<lparr>op_userId = ''u1'', op_status = DelInProgress, op_totalDeleted = 0, op_totalToDelete = 0\<rparr>"

definition deleteAfterFirstBatch :: SyncEnv where
  "deleteAfterFirstBatch =
     \<lparr>transactionsConfigured = True,
      deleteStatusAt = (\<lambda>n. if 3 \<le> n then Some deleteStarted else None),
      cancelSyncAt = (\<lambda>n. 3 \<le> n),
      createDocument = (\<lambda>u i. Created)\<rparr>"

definition deleteQueued :: SyncEnv where
  "deleteQueued =
     \<lparr>transactionsConfigured = True,
      deleteStatusAt = (\<lambda>n. Some (deleteStarted\<lparr>op_status := DelPending\<rparr>)),
      cancelSyncAt = (\<lambda>n. False),
      createDocument = (\<lambda>u i. Created)\<rparr>"

definition partlyUploaded :: SyncEnv where
  "partlyUploaded =
     \<lparr>transactionsConfigured = True,
      deleteStatusAt = (\<lambda>n. None),
      cancelSyncAt = (\<lambda>n. False),
      createDocument = (\<lambda>u i.
        if i = 1 then CreateThrew (Some ''Document with the requested ID already exists'')
        else if i = 2 then CreateThrew None
        else Created)\<rparr>"

definition unconfigured :: SyncEnv where
  "unconfigured =
     \<lparr>transactionsConfigured = False,
      deleteStatusAt = (\<lambda>n. None),
      cancelSyncAt = (\<lambda>n. False),
      createDocument = (\<lambda>u i. Created)\<rparr>"

section \<open>Delete queue: \<^verbatim>\<open>startDeletingTransactions\<close>\<close>

text \<open>
  What \<^verbatim>\<open>databases.deleteDocument\<close> throws: an object whose \<^verbatim>\<open>code\<close>, \<^verbatim>\<open>type\<close>
  and \<^verbatim>\<open>message\<close> may each be absent.
\<close>

record RemoteError =
  err_code :: "int option"
  err_type :: "string option"
  err_message :: "string option"

datatype DeleteOutcome = Deleted | DeleteThrew RemoteError

text \<open>\<^verbatim>\<open>error.message?.includes(s)\<close>: false when there is no message.\<close>

definition messageIncludes :: "RemoteError \<Rightarrow> string \<Rightarrow> bool" where
  "messageIncludes e s = (case err_message e of None \<Rightarrow> False | Some m \<Rightarrow> str_includes m s)"

text \<open>\<^verbatim>\<open>error.code === 404 || error.message?.includes('could not be found')\<close>\<close>

definition isNotFound :: "RemoteError \<Rightarrow> bool" where
  "isNotFound e \<longleftrightarrow> err_code e = Some 404 \<or> messageIncludes e ''could not be found''"

text \<open>
  \<^verbatim>\<open>error.code === 429 || error.type === 'rate_limit_exceeded' ||
  error.message?.includes('rate limit')\<close>
\<close>

definition isRateLimit :: "RemoteError \<Rightarrow> bool" where
  "isRateLimit e \<longleftrightarrow>
     err_code e = Some 429 \<or> err_type e = Some ''rate_limit_exceeded''
     \<or> messageIncludes e ''rate limit''"

text \<open>
  The observable steps of a run, in order: calls of \<^verbatim>\<open>deleteDocument\<close>, waits
  (\<^verbatim>\<open>setTimeout\<close>, in milliseconds), what is reported to the log and to the error
  tracker, with the context string the code passes, and the calls of
  \<^verbatim>\<open>onProgressUpdate\<close>.
\<close>

datatype DeleteEvent =
    DeleteCall string
  | Wait nat
  | AlreadyDeleted string
  | Reported string string
  | Progress nat DeleteStatus

text \<open>
  The state of a run. \<open>totalDeleted\<close> and \<open>batchDeleted\<close> are the local variables of
  these names; \<open>deleteCalls\<close> and \<open>listCalls\<close> count the \<^verbatim>\<open>deleteDocument\<close> and
  \<^verbatim>\<open>listDocuments\<close> calls made so far and \<open>deleteTrace\<close> holds the steps taken so
  far. \<open>remoteDocuments\<close> is the remote transactions collection, each document with its
  \<^verbatim>\<open>$id\<close> and its \<^verbatim>\<open>userId\<close>, in the order the remote lists them. \<open>storedOperation\<close>
  is the operation stored under \<^verbatim>\<open>DELETE_QUEUE_KEY\<close> (without \<^verbatim>\<open>lastError\<close> and
  \<^verbatim>\<open>createdAt\<close>, which the run never reads), and \<open>deleteOperationLocked\<close> the flag
  of that name. Local storage is taken to work; the notifications, which the run writes
  and never reads, are left out.
\<close>

record DeleteLoop =
  totalDeleted :: nat
  batchDeleted :: nat
  deleteCalls :: nat
  deleteTrace :: "DeleteEvent list"
  listCalls :: nat
  remoteDocuments :: "(string \<times> string) list"
  storedOperation :: "DeleteOperation option"
  deleteOperationLocked :: bool

text \<open>
  What a run cannot control: \<open>deleteAnswer k d\<close> is the outcome of the \<open>k\<close>-th
  \<^verbatim>\<open>deleteDocument\<close> call when it asks for document \<open>d\<close>, and \<open>listFails n\<close> tells
  whether the \<open>n\<close>-th \<^verbatim>\<open>listDocuments\<close> call throws.
\<close>

type_synonym DeleteRemote = "nat \<Rightarrow> string \<Rightarrow> DeleteOutcome"

record DeleteEnv =
  deleteAnswer :: DeleteRemote
  listFails :: "nat \<Rightarrow> bool"

definition batchSize :: nat where
  "batchSize = 1"

definition delayBetweenBatches :: nat where
  "delayBetweenBatches = 2000"

definition delayBetweenDocuments :: nat where
  "delayBetweenDocuments = 500"

definition rateLimitWait :: nat where
  "rateLimitWait = 10000"

definition countDeleted :: "DeleteLoop \<Rightarrow> DeleteLoop" where
  "countDeleted st = st\<lparr>totalDeleted := totalDeleted st + 1, batchDeleted := batchDeleted st + 1\<rparr>"

definition emit :: "DeleteEvent list \<Rightarrow> DeleteLoop \<Rightarrow> DeleteLoop" where
  "emit evs st = st\<lparr>deleteTrace := deleteTrace st @ evs\<rparr>"

text \<open>
  \<^verbatim>\<open>await databases.deleteDocument(DATABASE_ID, TRANSACTION_COLLECTION_ID, doc.$id)\<close>.
  The remote is taken to tell the truth: after a call that returns, and after one that
  fails with the code 404, the collection holds no document of that id; after any other
  failure the collection is as before.
\<close>

definition removes :: "DeleteOutcome \<Rightarrow> bool" where
  "removes outcome = (case outcome of Deleted \<Rightarrow> True | DeleteThrew e \<Rightarrow> err_code e = Some 404)"

definition deleteDocument :: "DeleteRemote \<Rightarrow> string \<Rightarrow> DeleteLoop \<Rightarrow> DeleteOutcome \<times> DeleteLoop" where
  "deleteDocument remote docId st =
     (remote (deleteCalls st) docId,
      emit [DeleteCall docId]
        (st\<lparr>deleteCalls := deleteCalls st + 1,
            remoteDocuments :=
              (if removes (remote (deleteCalls st) docId)
               then filter (\<lambda>d. fst d \<noteq> docId) (remoteDocuments st)
               else remoteDocuments st)\<rparr>))"

text \<open>The body of \<^verbatim>\<open>for (const doc of response.documents)\<close>: one \<^verbatim>\<open>try\<close>/\<^verbatim>\<open>catch\<close>.\<close>

definition deleteOne :: "DeleteRemote \<Rightarrow> string \<Rightarrow> DeleteLoop \<Rightarrow> DeleteLoop" where
  "deleteOne remote docId st =
     (case deleteDocument remote docId st of
        (Deleted, st1) \<Rightarrow> emit [Wait delayBetweenDocuments] (countDeleted st1)
      | (DeleteThrew e, st1) \<Rightarrow>
          if isNotFound e then countDeleted (emit [AlreadyDeleted docId] st1)
          else if isRateLimit e then
            (case deleteDocument remote docId
                    (emit [Reported ''delete_rate_limit'' docId, Wait rateLimitWait] st1) of
               (Deleted, st2) \<Rightarrow> countDeleted st2
             | (DeleteThrew retryError, st2) \<Rightarrow>
                 emit [Reported ''delete_rate_limit_retry_failed'' docId] st2)
          else emit [Reported ''delete_error'' docId] st1)"

fun deleteBatch :: "DeleteRemote \<Rightarrow> string list \<Rightarrow> DeleteLoop \<Rightarrow> DeleteLoop" where
  "deleteBatch remote [] st = st"
| "deleteBatch remote (docId # docs) st = deleteBatch remote docs (deleteOne remote docId st)"

text \<open>
  \<^verbatim>\<open>listDocuments\<close> with \<^verbatim>\<open>Query.equal("userId", user)\<close> and \<^verbatim>\<open>Query.limit(limit)\<close>:
  the ids of the first \<open>limit\<close> documents of the user. There is no cursor: every call
  starts from the head of the collection.
\<close>

definition listDocuments :: "string \<Rightarrow> nat \<Rightarrow> DeleteLoop \<Rightarrow> string list" where
  "listDocuments user limit st =
     take limit (map fst (filter (\<lambda>d. snd d = user) (remoteDocuments st)))"

text \<open>\<^verbatim>\<open>updateDeleteStatus\<close>: the stored operation, if there is one, gets the updates.\<close>

definition updateDeleteStatus ::
  "(DeleteOperation \<Rightarrow> DeleteOperation) \<Rightarrow> DeleteLoop \<Rightarrow> DeleteLoop" where
  "updateDeleteStatus updates st = st\<lparr>storedOperation := map_option updates (storedOperation st)\<rparr>"

text \<open>
  The end of a pass of \<^verbatim>\<open>while (true)\<close>, after the \<^verbatim>\<open>for\<close> loop: the stored count,
  the progress callback and the wait before the next pass. Then the two ways out of the
  loop: the \<^verbatim>\<open>break\<close> when nothing is listed any more, after which the stored
  operation is removed (and with it the stored sync queue and sync status, which are
  not part of this state), and the outer \<^verbatim>\<open>catch\<close>.
\<close>

definition afterBatch :: "DeleteLoop \<Rightarrow> DeleteLoop" where
  "afterBatch st =
     emit [Progress (totalDeleted st) DelInProgress, Wait delayBetweenBatches]
       (updateDeleteStatus (\<lambda>operation. operation\<lparr>op_totalDeleted := totalDeleted st\<rparr>) st)"

definition deleteCompleted :: "DeleteLoop \<Rightarrow> DeleteLoop" where
  "deleteCompleted st =
     (emit [Progress (totalDeleted st) DelCompleted] st)\<lparr>storedOperation := None\<rparr>"

definition deleteFailed :: "DeleteLoop \<Rightarrow> DeleteLoop" where
  "deleteFailed st =
     emit [Progress 0 DelFailed]
       (updateDeleteStatus
          (\<lambda>operation. operation\<lparr>op_status := DelFailed, op_totalDeleted := 0\<rparr>) st)"

text \<open>
  The loop \<^verbatim>\<open>while (true)\<close>. Every pass lists the user's documents again with the
  limit \<open>batchSize\<close>, and the loop ends only when nothing is listed or the listing
  throws; a run that goes on for ever has the value \<open>None\<close>.
\<close>

partial_function (option) deleteLoop :: "DeleteEnv \<Rightarrow> string \<Rightarrow> DeleteLoop \<Rightarrow> DeleteLoop option" where
  "deleteLoop env user st =
     (if listFails env (listCalls st)
      then Some (deleteFailed (st\<lparr>listCalls := listCalls st + 1\<rparr>))
      else
        let documents = listDocuments user batchSize st;
            st1 = st\<lparr>listCalls := listCalls st + 1\<rparr>
        in if length documents = 0 then Some (deleteCompleted st1)
           else deleteLoop env user
                  (afterBatch (deleteBatch (deleteAnswer env) documents (st1\<lparr>batchDeleted := 0\<rparr>))))"









section \<open>Balance reconciliation: the balances computed by the import screen\<close>

subsection \<open>Values of the host language\<close>

text \<open>
  \<^verbatim>\<open>toUpperCase\<close> and \<^verbatim>\<open>toLowerCase\<close> on the letters a to z; the strings compared
  against are plain ASCII words. Every other character is kept as it is: the few
  characters outside ASCII that JavaScript maps to ASCII letters are not modelled.
\<close>

definition upperChar :: "char \<Rightarrow> char" where
  "upperChar c =
     (case map_of (zip ''abcdefghijklmnopqrstuvwxyz'' ''ABCDEFGHIJKLMNOPQRSTUVWXYZ'') c of
        None \<Rightarrow> c | Some C \<Rightarrow> C)"

definition lowerChar :: "char \<Rightarrow> char" where
  "lowerChar c =
     (case map_of (zip ''ABCDEFGHIJKLMNOPQRSTUVWXYZ'' ''abcdefghijklmnopqrstuvwxyz'') c of
        None \<Rightarrow> c | Some C \<Rightarrow> C)"

definition toUpperCase :: "string \<Rightarrow> string" where
  "toUpperCase s = map upperChar s"

definition toLowerCase :: "string \<Rightarrow> string" where
  "toLowerCase s = map lowerChar s"

text \<open>
  An optional string used as a condition: \<^verbatim>\<open>undefined\<close> and the empty string are
  falsy.
\<close>

definition truthy :: "string option \<Rightarrow> bool" where
  "truthy s = (case s of None \<Rightarrow> False | Some v \<Rightarrow> v \<noteq> [])"

text \<open>\<^verbatim>\<open>s.replace(' ', 'T')\<close>: the first space becomes a T.\<close>

fun replaceSpace :: "string \<Rightarrow> string" where
  "replaceSpace [] = []"
| "replaceSpace (c # cs) = (if c = CHR '' '' then CHR ''T'' # cs else c # replaceSpace cs)"

subsection \<open>Data\<close>

text \<open>
  A parsed CSV row. \<open>csv_balance\<close> is the field \<^verbatim>\<open>balance\<close>, a string; optional fields
  are \<open>None\<close> when absent.
\<close>

record ParsedTransaction =
  description :: string
  product :: "string option"
  currency :: "string option"
  state :: "string option"
  csv_balance :: "string option"
  amount :: "Number option"
  completedDate :: "string option"
  startedDate :: "string option"

text \<open>
  The argument and the result of \<^verbatim>\<open>resolveAccountInfo\<close>; \<open>accountProvider\<close> and
  \<open>accountCurrency\<close> are the fields \<^verbatim>\<open>provider\<close> and \<^verbatim>\<open>currency\<close> of the result.
\<close>

record ResolveArgs =
  arg_description :: string
  arg_product :: "string option"
  arg_currency :: string
  arg_provider :: string
  pocketNameHint :: "string option"
  vaultNameHint :: "string option"

record AccountInfo =
  accountKey :: string
  accountName :: string
  accountType :: string
  accountProvider :: string
  accountCurrency :: string

text \<open>
  A value of the map \<^verbatim>\<open>accountBalances\<close>: the resolved account
  (\<^verbatim>\<open>...accountInfo\<close>), \<^verbatim>\<open>balance\<close> in cents and \<^verbatim>\<open>lastDateISO\<close>.
\<close>

record BalanceEntry =
  info :: AccountInfo
  entryBalance :: Number
  lastDateISO :: string

text \<open>
  What the screen calls and does not define. \<open>resolveAccountInfo\<close> is the account
  resolver. \<open>pocketName d\<close> is the trimmed first group of
  \<^verbatim>\<open>d.match(/To pocket (?:EUR|GBP|USD)\s+(.+?)\s+from (?:EUR|GBP|USD)/i)\<close>, \<open>None\<close>
  when there is no match. \<open>parseFloat\<close> is the built-in of that name. \<open>getTime\<close> is
  \<^verbatim>\<open>new Date(s).getTime()\<close>, a whole number of milliseconds or \<open>None\<close> for
  \<^verbatim>\<open>NaN\<close>. \<open>nowAt i\<close> is
  \<^verbatim>\<open>new Date().toISOString()\<close> as read while row \<open>i\<close> is processed.
\<close>

record ImportEnv =
  resolveAccountInfo :: "ResolveArgs \<Rightarrow> AccountInfo"
  pocketName :: "string \<Rightarrow> string option"
  parseFloat :: "string \<Rightarrow> Number"
  getTime :: "string \<Rightarrow> int option"
  nowAt :: "nat \<Rightarrow> string"

type_synonym Hints = "(string \<rightharpoonup> string) \<times> (string \<rightharpoonup> string)"

subsection \<open>The passes of \<^verbatim>\<open>handleContinue\<close>\<close>

text \<open>\<^verbatim>\<open>transaction.currency || 'EUR'\<close> and \<^verbatim>\<open>transaction.product?.toLowerCase()\<close>\<close>

definition currencyOf :: "ParsedTransaction \<Rightarrow> string" where
  "currencyOf tx = (if truthy (currency tx) then the (currency tx) else ''EUR'')"

definition productLower :: "ParsedTransaction \<Rightarrow> string option" where
  "productLower tx = map_option toLowerCase (product tx)"

text \<open>\<^verbatim>\<open>!state || state.toUpperCase() !== word\<close>\<close>

definition stateIsNot :: "ParsedTransaction \<Rightarrow> string \<Rightarrow> bool" where
  "stateIsNot tx word \<longleftrightarrow> \<not> truthy (state tx) \<or> toUpperCase (the (state tx)) \<noteq> word"

text \<open>
  The loop that fills \<^verbatim>\<open>lastVaultNameByCurrency\<close> and \<^verbatim>\<open>lastPocketNameByCurrency\<close>
  before anything is resolved. The pair is (vault names, pocket names).
\<close>

definition hintStep :: "ImportEnv \<Rightarrow> Hints \<Rightarrow> ParsedTransaction \<Rightarrow> Hints" where
  "hintStep env hints tx =
     (case hints of (vault, pocket) \<Rightarrow>
        if stateIsNot tx ''COMPLETED'' then (vault, pocket)
        else if productLower tx = Some ''savings'' then
          (case pocketName env (description tx) of
             Some name \<Rightarrow> (vault(currencyOf tx \<mapsto> name), pocket)
           | None \<Rightarrow> (vault, pocket))
        else if productLower tx = Some ''pocket'' then
          (case pocketName env (description tx) of
             Some name \<Rightarrow> (vault, pocket(currencyOf tx \<mapsto> name))
           | None \<Rightarrow> (vault, pocket))
        else (vault, pocket))"

text \<open>
  First pass. The two tests at the head of the loop body:
  \<^verbatim>\<open>if (!transaction.balance) continue;\<close> and
  \<^verbatim>\<open>if (transaction.state && transaction.state.toUpperCase() !== 'COMPLETED') continue;\<close>
\<close>

definition firstPassSkips :: "ParsedTransaction \<Rightarrow> bool" where
  "firstPassSkips tx \<longleftrightarrow>
     \<not> truthy (csv_balance tx)
     \<or> (truthy (state tx) \<and> toUpperCase (the (state tx)) \<noteq> ''COMPLETED'')"

text \<open>
  The part of the body that updates the two name maps and chooses the hints for this
  row: the new maps, then \<^verbatim>\<open>vaultNameHint\<close> and \<^verbatim>\<open>pocketNameHint\<close>.
\<close>

definition firstPassHints ::
  "ImportEnv \<Rightarrow> Hints \<Rightarrow> ParsedTransaction \<Rightarrow> Hints \<times> string option \<times> string option" where
  "firstPassHints env hints tx =
     (case hints of (vault, pocket) \<Rightarrow>
        if productLower tx = Some ''savings'' then
          (case pocketName env (description tx) of
             Some name \<Rightarrow> ((vault(currencyOf tx \<mapsto> name), pocket), None, None)
           | None \<Rightarrow>
               if toLowerCase (description tx) = ''pocket withdrawal''
               then ((vault, pocket), vault (currencyOf tx), None)
               else ((vault, pocket), None, None))
        else if productLower tx = Some ''pocket'' then
          (case pocketName env (description tx) of
             Some name \<Rightarrow> ((vault, pocket(currencyOf tx \<mapsto> name)), None, None)
           | None \<Rightarrow> ((vault, pocket), None, pocket (currencyOf tx)))
        else ((vault, pocket), None, None))"

definition resolveRow ::
  "ImportEnv \<Rightarrow> ParsedTransaction \<Rightarrow> string option \<Rightarrow> string option \<Rightarrow> AccountInfo" where
  "resolveRow env tx vaultHint pocketHint =
     resolveAccountInfo env
       \<lparr>arg_description = description tx, arg_product = product tx,
        arg_currency = currencyOf tx, arg_provider = ''revolut'',
        pocketNameHint = pocketHint, vaultNameHint = vaultHint\<rparr>"

text \<open>
  \<^verbatim>\<open>((transaction.completedDate || transaction.startedDate)?.replace(' ', 'T')) ||
  new Date().toISOString()\<close>
\<close>

definition txnDateISO :: "ImportEnv \<Rightarrow> nat \<Rightarrow> ParsedTransaction \<Rightarrow> string" where
  "txnDateISO env i tx =
     (let d = (if truthy (completedDate tx) then completedDate tx else startedDate tx);
          r = map_option replaceSpace d
      in if truthy r then the r else nowAt env i)"

text \<open>
  \<^verbatim>\<open>new Date(a).getTime() > new Date(b).getTime()\<close>: false as soon as one side is
  \<^verbatim>\<open>NaN\<close>.
\<close>

definition laterThan :: "ImportEnv \<Rightarrow> string \<Rightarrow> string \<Rightarrow> bool" where
  "laterThan env a b =
     (case (getTime env a, getTime env b) of (Some x, Some y) \<Rightarrow> y < x | _ \<Rightarrow> False)"

text \<open>
  The end of the body: \<^verbatim>\<open>accountBalances.get\<close>, the comparison and
  \<^verbatim>\<open>accountBalances.set\<close>. The map is kept as the list of its entries in insertion
  order; setting an existing key keeps its place.
\<close>

definition keepLatest ::
  "ImportEnv \<Rightarrow> (string \<times> BalanceEntry) list \<Rightarrow> BalanceEntry \<Rightarrow> (string \<times> BalanceEntry) list" where
  "keepLatest env accountBalances candidate =
     (case map_of accountBalances (accountKey (info candidate)) of
        None \<Rightarrow> AList.update (accountKey (info candidate)) candidate accountBalances
      | Some existing \<Rightarrow>
          if laterThan env (lastDateISO candidate) (lastDateISO existing)
          then AList.update (accountKey (info candidate)) candidate accountBalances
          else accountBalances)"

text \<open>The whole body of the first pass, for the row with index \<open>i\<close>.\<close>

definition firstPassStep ::
  "ImportEnv \<Rightarrow> Hints \<times> (string \<times> BalanceEntry) list \<Rightarrow> nat \<times> ParsedTransaction
   \<Rightarrow> Hints \<times> (string \<times> BalanceEntry) list" where
  "firstPassStep env st row =
     (case (st, row) of ((hints, accountBalances), (i, tx)) \<Rightarrow>
        if firstPassSkips tx then (hints, accountBalances)
        else
          case firstPassHints env hints tx of (hints', vaultHint, pocketHint) \<Rightarrow>
            let accountInfo = resolveRow env tx vaultHint pocketHint;
                balanceAmount = parseFloat env (the (csv_balance tx))
            in if isNaN balanceAmount then (hints', accountBalances)
               else
                 (hints',
                  keepLatest env accountBalances
                    \<lparr>info = accountInfo,
                     entryBalance = mathRound (jsTimes balanceAmount literal100),
                     lastDateISO = txnDateISO env i tx\<rparr>))"

text \<open>
  Second pass: the body of the loop that fills \<^verbatim>\<open>pendingAdjustments\<close>.
  \<open>amountOrZero\<close> is \<^verbatim>\<open>transaction.amount || 0\<close>, which turns a missing amount,
  \<^verbatim>\<open>NaN\<close> and zero into 0, so that the \<^verbatim>\<open>isNaN\<close> test that follows never holds;
  \<open>currentAdjustment\<close> is \<^verbatim>\<open>pendingAdjustments.get(accountInfo.accountKey) || 0\<close>.
\<close>

definition amountOrZero :: "ParsedTransaction \<Rightarrow> Number" where
  "amountOrZero tx = (case amount tx of None \<Rightarrow> literal0 | Some a \<Rightarrow> orZero a)"

definition currentAdjustment :: "(string \<times> Number) list \<Rightarrow> string \<Rightarrow> Number" where
  "currentAdjustment pendingAdjustments key =
     (case map_of pendingAdjustments key of None \<Rightarrow> literal0 | Some c \<Rightarrow> orZero c)"

definition secondPassStep ::
  "ImportEnv \<Rightarrow> Hints \<Rightarrow> (string \<times> Number) list \<Rightarrow> ParsedTransaction
   \<Rightarrow> (string \<times> Number) list" where
  "secondPassStep env hints pendingAdjustments tx =
     (case hints of (vault, pocket) \<Rightarrow>
        if stateIsNot tx ''PENDING'' then pendingAdjustments
        else if isNaN (amountOrZero tx) then pendingAdjustments
        else
          let accountInfo = resolveRow env tx (vault (currencyOf tx)) (pocket (currencyOf tx));
              pendingInCents = mathRound (jsTimes (amountOrZero tx) literal100)
          in AList.update (accountKey accountInfo)
               (jsPlus (currentAdjustment pendingAdjustments (accountKey accountInfo))
                  pendingInCents)
               pendingAdjustments)"

text \<open>\<^verbatim>\<open>for (const [accountKey, adjustment] of pendingAdjustments)\<close>\<close>

definition applyAdjustment ::
  "(string \<times> BalanceEntry) list \<Rightarrow> string \<times> Number \<Rightarrow> (string \<times> BalanceEntry) list" where
  "applyAdjustment accountBalances adj =
     (case adj of (key, adjustment) \<Rightarrow>
        case map_of accountBalances key of
          None \<Rightarrow> accountBalances
        | Some existing \<Rightarrow>
            AList.update key
              (existing\<lparr>entryBalance := jsPlus (entryBalance existing) adjustment\<rparr>)
              accountBalances)"

text \<open>
  The map \<^verbatim>\<open>accountBalances\<close> when the saving loop starts, and the balances that loop
  writes (locally, and remotely for a signed-in user): one per entry, in order.
\<close>

definition computeBalances :: "ImportEnv \<Rightarrow> ParsedTransaction list \<Rightarrow> (string \<times> BalanceEntry) list" where
  "computeBalances env transactions =
     (let hints0 = foldl (hintStep env) (Map.empty, Map.empty) transactions;
          (hints1, accountBalances) =
             foldl (firstPassStep env) (hints0, []) (zip [0..<length transactions] transactions);
          pendingAdjustments = foldl (secondPassStep env hints1) [] transactions
      in foldl applyAdjustment accountBalances pendingAdjustments)"

definition savedBalances :: "ImportEnv \<Rightarrow> ParsedTransaction list \<Rightarrow> BalanceEntry list" where
  "savedBalances env transactions = map snd (computeBalances env transactions)"

subsection \<open>The rows behind a balance\<close>

text \<open>
  The balance candidates of a batch: for every row the first pass does not skip and
  whose balance parses, in row order, the account it resolves to at that point of the
  pass, its balance in cents and its date. And the pending amounts: for every pending
  row, the key of the account it resolves to in the second pass and its amount in
  cents.
\<close>

definition candidateOf :: "ImportEnv \<Rightarrow> Hints \<Rightarrow> nat \<times> ParsedTransaction \<Rightarrow> BalanceEntry option" where
  "candidateOf env hints row =
     (case row of (i, tx) \<Rightarrow>
        if firstPassSkips tx then None
        else case firstPassHints env hints tx of (hints', vaultHint, pocketHint) \<Rightarrow>
          if isNaN (parseFloat env (the (csv_balance tx))) then None
          else Some \<lparr>info = resolveRow env tx vaultHint pocketHint,
                     entryBalance =
                       mathRound (jsTimes (parseFloat env (the (csv_balance tx))) literal100),
                     lastDateISO = txnDateISO env i tx\<rparr>)"

definition hintsAfter :: "ImportEnv \<Rightarrow> Hints \<Rightarrow> nat \<times> ParsedTransaction \<Rightarrow> Hints" where
  "hintsAfter env hints row =
     (if firstPassSkips (snd row) then hints else fst (firstPassHints env hints (snd row)))"

fun candidatesFrom :: "ImportEnv \<Rightarrow> Hints \<Rightarrow> (nat \<times> ParsedTransaction) list \<Rightarrow> BalanceEntry list" where
  "candidatesFrom env hints [] = []"
| "candidatesFrom env hints (row # rows) =
     (case candidateOf env hints row of None \<Rightarrow> [] | Some c \<Rightarrow> [c])
     @ candidatesFrom env (hintsAfter env hints row) rows"

definition balanceCandidates :: "ImportEnv \<Rightarrow> ParsedTransaction list \<Rightarrow> BalanceEntry list" where
  "balanceCandidates env transactions =
     candidatesFrom env (foldl (hintStep env) (Map.empty, Map.empty) transactions)
       (zip [0..<length transactions] transactions)"

definition finalHints :: "ImportEnv \<Rightarrow> ParsedTransaction list \<Rightarrow> Hints" where
  "finalHints env transactions =
     foldl (hintsAfter env) (foldl (hintStep env) (Map.empty, Map.empty) transactions)
       (zip [0..<length transactions] transactions)"

definition pendingFrom :: "ImportEnv \<Rightarrow> Hints \<Rightarrow> ParsedTransaction list \<Rightarrow> (string \<times> Number) list" where
  "pendingFrom env hints transactions =
     map (\<lambda>tx. (accountKey (resolveRow env tx (fst hints (currencyOf tx))
                               (snd hints (currencyOf tx))),
                mathRound (jsTimes (amountOrZero tx) literal100)))
       (filter (\<lambda>tx. \<not> stateIsNot tx ''PENDING'') transactions)"

definition pendingAmounts :: "ImportEnv \<Rightarrow> ParsedTransaction list \<Rightarrow> (string \<times> Number) list" where
  "pendingAmounts env transactions = pendingFrom env (finalHints env transactions) transactions"

text \<open>
  The adjustment of an account: none when no pending row resolves to it, otherwise the
  pending amounts added up in row order, each step being
  \<^verbatim>\<open>(pendingAdjustments.get(key) || 0) + pendingInCents\<close>.
\<close>

definition addPending :: "Number \<Rightarrow> Number \<Rightarrow> Number" where
  "addPending current pendingInCents = jsPlus (orZero current) pendingInCents"

definition pendingSum :: "ImportEnv \<Rightarrow> ParsedTransaction list \<Rightarrow> string \<Rightarrow> Number option" where
  "pendingSum env transactions key =
     (case filter (\<lambda>p. fst p = key) (pendingAmounts env transactions) of
        [] \<Rightarrow> None
      | ps \<Rightarrow> Some (foldl addPending literal0 (map snd ps)))"

text \<open>\<^verbatim>\<open>existing.balance += adjustment\<close>, for an account with or without adjustment.\<close>

definition adjusted :: "Number option \<Rightarrow> BalanceEntry \<Rightarrow> BalanceEntry" where
  "adjusted adjustment entry =
     (case adjustment of
        None \<Rightarrow> entry
      | Some a \<Rightarrow> entry\<lparr>entryBalance := jsPlus (entryBalance entry) a\<rparr>)"

definition timeOf :: "ImportEnv \<Rightarrow> BalanceEntry \<Rightarrow> int option" where
  "timeOf env c = getTime env (lastDateISO c)"

text \<open>
  \<open>c\<close> is the latest of the candidates \<open>cs\<close>, and the first of them in case of a tie:
  those before it are earlier, those after it are not later.
\<close>

definition firstLatest :: "ImportEnv \<Rightarrow> BalanceEntry list \<Rightarrow> BalanceEntry \<Rightarrow> bool" where
  "firstLatest env cs c \<longleftrightarrow>
     (\<exists>pre post. cs = pre @ c # post
        \<and> (\<forall>y \<in> set pre. laterThan env (lastDateISO c) (lastDateISO y))
        \<and> (\<forall>y \<in> set post. \<not> laterThan env (lastDateISO y) (lastDateISO c)))"

subsection \<open>Sample batches\<close>

text \<open>
  A resolver that keys accounts by currency, a \<open>parseFloat\<close> known on a few strings
  (\<^verbatim>\<open>0.145\<close> is the double \<open>5224175567749775 * 2 ^ -55\<close>), and rows of a current
  account. The first batch is the scenario of three completed rows with balances 100,
  150 and 90 and a pending row of -20. The second has a completed row and a later row
  whose state is \<open>st\<close>. The third has a row without state and a pending row. The
  fourth has a completed EUR row and a pending GBP row.
\<close>

definition sampleImport :: ImportEnv where
  "sampleImport =
     \<lparr>resolveAccountInfo = (\<lambda>a.
        \<lparr>accountKey = ''revolut-current-'' @ arg_currency a, accountName = ''Current'',
         accountType = ''current'', accountProvider = arg_provider a,
         accountCurrency = arg_currency a\<rparr>),
      pocketName = (\<lambda>d. None),
      parseFloat = (\<lambda>s.
        case map_of [(''100'', fromInt 100), (''150'', fromInt 150), (''90'', fromInt 90),
                     (''50'', fromInt 50), (''0.145'', Dyadic 5224175567749775 (- 55))] s of
          None \<Rightarrow> NaN
        | Some x \<Rightarrow> x),
      getTime = map_of [(''2024-01-01T10:00:00'', 1704103200000),
                        (''2024-01-02T10:00:00'', 1704189600000),
                        (''2024-01-03T10:00:00'', 1704276000000),
                        (''2024-01-04T10:00:00'', 1704362400000)],
      nowAt = (\<lambda>i. ''2024-02-01T00:00:00'')\<rparr>"

definition csvRow ::
  "string \<Rightarrow> string option \<Rightarrow> string option \<Rightarrow> int \<Rightarrow> string \<Rightarrow> ParsedTransaction" where
  "csvRow cur st bal amt date =
     \<lparr>description = ''Card payment'', product = Some ''Current'', currency = Some cur,
      state = st, csv_balance = bal, amount = Some (fromInt amt), completedDate = Some date,
      startedDate = Some date\<rparr>"

definition scenarioBatch :: "ParsedTransaction list" where
  "scenarioBatch =
     [csvRow ''EUR'' (Some ''COMPLETED'') (Some ''100'') 100 ''2024-01-01 10:00:00'',
      csvRow ''EUR'' (Some ''COMPLETED'') (Some ''150'') 50 ''2024-01-02 10:00:00'',
      csvRow ''EUR'' (Some ''COMPLETED'') (Some ''90'') (- 60) ''2024-01-03 10:00:00'',
      csvRow ''EUR'' (Some ''PENDING'') None (- 20) ''2024-01-04 10:00:00'']"

definition statelessBatch :: "string option \<Rightarrow> ParsedTransaction list" where
  "statelessBatch st =
     [csvRow ''EUR'' (Some ''COMPLETED'') (Some ''100'') 100 ''2024-01-01 10:00:00'',
      csvRow ''EUR'' st (Some ''50'') (- 50) ''2024-01-02 10:00:00'']"

definition statelessPendingBatch :: "ParsedTransaction list" where
  "statelessPendingBatch =
     [csvRow ''EUR'' None (Some ''50'') (- 50) ''2024-01-01 10:00:00'',
      csvRow ''EUR'' (Some ''PENDING'') None (- 20) ''2024-01-02 10:00:00'']"

definition pendingOnlyBatch :: "ParsedTransaction list" where
  "pendingOnlyBatch =
     [csvRow ''EUR'' (Some ''COMPLETED'') (Some ''100'') 100 ''2024-01-01 10:00:00'',
      csvRow ''GBP'' (Some ''PENDING'') None (- 20) ''2024-01-02 10:00:00'']"

text \<open>The keys and balances of a map of balances, in order.\<close>

definition balancesOf :: "(string \<times> BalanceEntry) list \<Rightarrow> (string \<times> Number) list" where
  "balancesOf accountBalances = map (\<lambda>p. (fst p, entryBalance (snd p))) accountBalances"

text \<open>Every entry of the map sits under the key of its own account.\<close>

definition keyed :: "(string \<times> BalanceEntry) list \<Rightarrow> bool" where
  "keyed l \<longleftrightarrow> (\<forall>p \<in> set l. accountKey (info (snd p)) = fst p)"

section \<open>Transfer matcher\<close>

text \<open>
  Modelled from the spec: \<^verbatim>\<open>markTransfers\<close> and the type \<^verbatim>\<open>ConvertedTransaction\<close> of
  \<^verbatim>\<open>lib/csvParser\<close>, which the import screen calls and the repository sources at hand
  do not contain. The specification (section 4.3) asks for pairs of transactions of one
  batch where one is a debit and the other a credit of the same absolute amount,
  between two resolved accounts; for a deterministic choice that prefers the pair
  closest in time and then the input order; for reciprocal \<^verbatim>\<open>matchedTransferId\<close> and
  both analytics flags on the two transactions of a match; and for unmatched rows left
  untouched. A transaction has its id, its kind (a debit is an expense, a credit an
  income), its amount in minor units, the timestamp of its date and its account.
\<close>

datatype TransactionKind = Income | Expense

record ConvertedTransaction =
  ct_id :: string
  ct_kind :: TransactionKind
  ct_amount :: int
  ct_date :: int
  ct_account :: string
  matchedTransferId :: "string option"
  excludeFromAnalytics :: bool
  isAnalyticsProtected :: bool

text \<open>
  Modelled from the spec: a debit and a matching credit of the same absolute amount,
  in two different accounts.
\<close>

definition transferPair :: "ConvertedTransaction \<Rightarrow> ConvertedTransaction \<Rightarrow> bool" where
  "transferPair a b \<longleftrightarrow>
     ct_kind a \<noteq> ct_kind b \<and> \<bar>ct_amount a\<bar> = \<bar>ct_amount b\<bar> \<and> ct_account a \<noteq> ct_account b"

text \<open>
  Modelled from the spec: among the candidates for the transaction at index \<open>i\<close>, the
  one with the lowest absolute time difference, the first in input order among equals.
\<close>

definition timeDelta :: "ConvertedTransaction list \<Rightarrow> nat \<Rightarrow> nat \<Rightarrow> int" where
  "timeDelta xs i j = \<bar>ct_date (xs ! i) - ct_date (xs ! j)\<bar>"

definition bestCandidate :: "ConvertedTransaction list \<Rightarrow> nat \<Rightarrow> nat list \<Rightarrow> nat option" where
  "bestCandidate xs i rest =
     (let candidates = filter (\<lambda>j. transferPair (xs ! i) (xs ! j)) rest
      in if candidates = [] then None else Some (arg_min_list (timeDelta xs i) candidates))"

text \<open>
  Modelled from the spec: the transactions are taken in input order; each one not yet
  matched is paired with its best candidate among the later unmatched ones, if there is
  one. The result is the list of matched index pairs.
\<close>

function pairUp :: "ConvertedTransaction list \<Rightarrow> nat list \<Rightarrow> (nat \<times> nat) list" where
  "pairUp xs [] = []"
| "pairUp xs (i # rest) =
     (case bestCandidate xs i rest of
        None \<Rightarrow> pairUp xs rest
      | Some j \<Rightarrow> (i, j) # pairUp xs (remove1 j rest))"
  by pat_completeness auto
termination
  by (relation "measure (\<lambda>(xs, idxs). length idxs)")
    (auto simp: length_remove1 le_imp_less_Suc)

text \<open>
  Modelled from the spec: on a match both transactions receive the other's id as
  \<^verbatim>\<open>matchedTransferId\<close>, \<^verbatim>\<open>isAnalyticsProtected = true\<close> and
  \<^verbatim>\<open>excludeFromAnalytics = true\<close>.
\<close>

definition linkTo :: "string \<Rightarrow> ConvertedTransaction \<Rightarrow> ConvertedTransaction" where
  "linkTo other t =
     t\<lparr>matchedTransferId := Some other, excludeFromAnalytics := True,
       isAnalyticsProtected := True\<rparr>"

definition linkPair ::
  "ConvertedTransaction list \<Rightarrow> ConvertedTransaction list \<Rightarrow> nat \<times> nat
   \<Rightarrow> ConvertedTransaction list" where
  "linkPair xs ys p =
     (case p of (i, j) \<Rightarrow>
        ys[i := linkTo (ct_id (xs ! j)) (ys ! i), j := linkTo (ct_id (xs ! i)) (ys ! j)])"

text \<open>
  Modelled from the spec: \<^verbatim>\<open>markTransfers(transactions)\<close>, missing from the sources at
  hand, returns the batch with every matched pair linked and every other transaction
  as it was.
\<close>

definition markTransfers :: "ConvertedTransaction list \<Rightarrow> ConvertedTransaction list" where
  "markTransfers xs = foldl (linkPair xs) xs (pairUp xs [0..<length xs])"

text \<open>
  The scenario of the specification: a transfer of 50 EUR out of one account and into
  another at the same time, followed by an unrelated card payment.
\<close>

definition transferBatch :: "ConvertedTransaction list" where
  "transferBatch =
     [\<lparr>ct_id = ''t1'', ct_kind = Expense, ct_amount = - 5000, ct_date = 1000,
        ct_account = ''Checking'', matchedTransferId = None, excludeFromAnalytics = False,
        isAnalyticsProtected = False\<rparr>,
      \<lparr>ct_id = ''t2'', ct_kind = Income, ct_amount = 5000, ct_date = 1000,
        ct_account = ''Savings'', matchedTransferId = None, excludeFromAnalytics = False,
        isAnalyticsProtected = False\<rparr>,
      \<lparr>ct_id = ''t3'', ct_kind = Expense, ct_amount = - 1200, ct_date = 2000,
        ct_account = ''Checking'', matchedTransferId = None, excludeFromAnalytics = False,
        isAnalyticsProtected = False\<rparr>]"

text \<open>The indices that occur in a list of pairs, and the partner of an index.\<close>

definition pairedIndices :: "(nat \<times> nat) list \<Rightarrow> nat list" where
  "pairedIndices ps = concat (map (\<lambda>p. [fst p, snd p]) ps)"

fun partner :: "(nat \<times> nat) list \<Rightarrow> nat \<Rightarrow> nat option" where
  "partner [] k = None"
| "partner ((i, j) # ps) k =
     (if k = i then Some j else if k = j then Some i else partner ps k)"

section \<open>Properties of the string helpers\<close>

lemma includes_iff_sublist: "str_includes h n \<longleftrightarrow> sublist n h"
  by (induction h) (simp_all add: sublist_Cons_right)

lemma includes_length_le: "str_includes h n \<Longrightarrow> length n \<le> length h"
  by (simp add: includes_iff_sublist sublist_length_le)

section \<open>Properties of the fuzzy matcher\<close>

lemma scanKeys_Some:
  assumes "scanKeys t m ks = Some c"
  shows "\<exists>s \<in> set ks. containmentHit t s \<and> getProp m s = Some c"
  using assms
  by (induction ks) (auto simp: containmentHit_def includes_iff_sublist split: if_splits)

lemma getProp_own:
  assumes "s \<in> set (merchantKeys m)"
  shows "\<exists>c. map_of m s = Some c \<and> getProp m s = Some (Category c)"
proof -
  from assms have "map_of m s \<noteq> None"
    by (simp add: merchantKeys_def map_of_eq_None_iff)
  then show ?thesis by (auto simp: getProp_def)
qed

lemma scanKeys_hit:
  assumes "s \<in> set ks" and "containmentHit t s" and "set ks \<subseteq> set (merchantKeys m)"
  shows "scanKeys t m ks \<noteq> None"
  using assms
proof (induction ks)
  case Nil
  then show ?case by simp
next
  case (Cons k ks)
  have defined: "getProp m k \<noteq> None"
    using Cons.prems(3) getProp_own [of k m] by auto
  show ?case
  proof (cases "s = k")
    case True
    with Cons.prems(2) defined show ?thesis
      by (auto simp: containmentHit_def includes_iff_sublist)
  next
    case False
    with Cons have "scanKeys t m ks \<noteq> None" by auto
    with defined show ?thesis by auto
  qed
qed

lemma scanKeys_short_title:
  assumes "length t < 4"
  shows "scanKeys t m ks = None"
proof (induction ks)
  case Nil
  then show ?case by simp
next
  case (Cons k ks)
  have "\<not> str_includes t k" if "4 \<le> length k"
    using that assms includes_length_le [of t k] by auto
  with Cons assms show ?case by auto
qed

text \<open>
  An exact match returns what the property read yields. For a title key that names a
  member of \<^verbatim>\<open>Object.prototype\<close> and is no stored key, this is the inherited member
  and not a category; a stored key of that name takes precedence.
\<close>

lemma findMatchingCategory_exact:
  "exactMatch m t \<Longrightarrow> findMatchingCategory t m = getProp m t"
  by (simp add: findMatchingCategory_def)

lemma findMatchingCategory_inherited:
  "findMatchingCategory ''constructor'' [] = Some (Inherited ''constructor'')
   \<and> findMatchingCategory ''constructor'' [(''constructor'', ''diy'')] = Some (Category ''diy'')"
  by (simp add: findMatchingCategory_def exactMatch_def getProp_def truthyValue_def
      objectPrototype_def)

text \<open>
  Claim C8, as amended. When the read \<^verbatim>\<open>learnedMappings[titleKey]\<close> is falsy, so
  that there is no exact match, a category is found exactly when some stored key of at
  least 4 characters is contained in the title key, or contains a title key of at least
  5 characters; the category returned is the one stored under such a key. A stored key
  shorter than 4 characters is never the key that matches, and a title key shorter than
  4 characters matches nothing.
\<close>

theorem findMatchingCategory_containment:
  assumes "\<not> exactMatch m t"
  shows "(findMatchingCategory t m \<noteq> None \<longleftrightarrow>
            (\<exists>s \<in> set (merchantKeys m). containmentHit t s))
       \<and> (\<forall>v. findMatchingCategory t m = Some v \<longrightarrow>
            (\<exists>s \<in> set (merchantKeys m). \<exists>c. 4 \<le> length s \<and> 4 \<le> length t
               \<and> containmentHit t s \<and> map_of m s = Some c \<and> v = Category c))
       \<and> (length t < 4 \<longrightarrow> findMatchingCategory t m = None)"
proof (intro conjI allI impI)
  show "findMatchingCategory t m \<noteq> None \<longleftrightarrow> (\<exists>s \<in> set (merchantKeys m). containmentHit t s)"
  proof
    assume "findMatchingCategory t m \<noteq> None"
    then obtain c where "scanKeys t m (merchantKeys m) = Some c"
      using assms by (auto simp: findMatchingCategory_def)
    from scanKeys_Some [OF this] show "\<exists>s \<in> set (merchantKeys m). containmentHit t s"
      by blast
  next
    assume "\<exists>s \<in> set (merchantKeys m). containmentHit t s"
    then obtain s where "s \<in> set (merchantKeys m)" "containmentHit t s" by blast
    then have "scanKeys t m (merchantKeys m) \<noteq> None"
      by (rule scanKeys_hit) simp
    with assms show "findMatchingCategory t m \<noteq> None"
      by (simp add: findMatchingCategory_def)
  qed
next
  fix v
  assume "findMatchingCategory t m = Some v"
  with assms have found: "scanKeys t m (merchantKeys m) = Some v"
    by (simp add: findMatchingCategory_def)
  from scanKeys_Some [OF found] obtain s
    where s: "s \<in> set (merchantKeys m)" "containmentHit t s" "getProp m s = Some v"
    by blast
  from getProp_own [OF s(1)] s(3) obtain c where c: "map_of m s = Some c" "v = Category c"
    by auto
  have "4 \<le> length t"
  proof (rule ccontr)
    assume "\<not> 4 \<le> length t"
    then have "scanKeys t m (merchantKeys m) = None"
      by (intro scanKeys_short_title) simp
    with found show False by simp
  qed
  with s c show "\<exists>s \<in> set (merchantKeys m). \<exists>c. 4 \<le> length s \<and> 4 \<le> length t
      \<and> containmentHit t s \<and> map_of m s = Some c \<and> v = Category c"
    by (auto simp: containmentHit_def)
next
  assume "length t < 4"
  then show "findMatchingCategory t m = None"
    using assms by (simp add: findMatchingCategory_def scanKeys_short_title)
qed

theorem findMatchingCategory_containment_witness:
  "\<not> exactMatch [(''tesco'', ''groceries'')] ''tescostores''
   \<and> findMatchingCategory ''tescostores'' [(''tesco'', ''groceries'')]
       = Some (Category ''groceries'')
   \<and> (\<exists>s \<in> set (merchantKeys [(''tesco'', ''groceries'')]). containmentHit ''tescostores'' s)"
proof -
  have h: "\<not> exactMatch [(''tesco'', ''groceries'')] ''tescostores''"
    by (simp add: exactMatch_def getProp_def objectPrototype_def)
  have v: "findMatchingCategory ''tescostores'' [(''tesco'', ''groceries'')]
      = Some (Category ''groceries'')"
    by (simp add: findMatchingCategory_def exactMatch_def getProp_def merchantKeys_def
        objectPrototype_def)
  from findMatchingCategory_containment [OF h] h v show ?thesis
    by simp
qed

text \<open>
  The claim as written puts the guard at 4 characters in both directions. A title key
  of exactly 4 characters that is contained in a stored key of 5 characters is not
  matched.
\<close>

theorem findMatchingCategory_guard_counterexample:
  "4 \<le> length ''tesc'' \<and> 4 \<le> length ''tesco'' \<and> str_includes ''tesco'' ''tesc''
   \<and> \<not> exactMatch [(''tesco'', ''groceries'')] ''tesc''
   \<and> findMatchingCategory ''tesc'' [(''tesco'', ''groceries'')] = None"
  by (simp add: findMatchingCategory_def exactMatch_def getProp_def merchantKeys_def
      objectPrototype_def)

section \<open>Properties of the balance restore\<close>

lemma restoreFields_id [simp]: "doc_id (restoreFields now prev d) = doc_id d"
  by (simp add: restoreFields_def)

lemma find_fresh_id:
  assumes "doc_id d \<notin> doc_id ` set ds"
  shows "find (\<lambda>y. doc_id y = doc_id d) ds = None"
proof -
  have "doc_id y \<noteq> doc_id d" if "y \<in> set ds" for y
    using that assms by (metis imageI)
  then show ?thesis by (simp add: find_None_iff)
qed

lemma restoredBy_Nil [simp]: "restoredBy remote [] x = x"
  by (simp add: restoredBy_def)

lemma restoredBy_fresh:
  assumes "doc_id x \<notin> doc_id ` set ds"
  shows "restoredBy remote ds x = x"
  using find_fresh_id [OF assms] by (simp add: restoredBy_def)

lemma restoredBy_Cons:
  assumes "doc_id d \<notin> doc_id ` set ds"
  shows "restoredBy remote (d # ds) x =
     restoredBy remote ds
       (if doc_id x = doc_id d
        then (case previousBalance d of
                None \<Rightarrow> x
              | Some prev \<Rightarrow> restoreFields (nowISO remote (doc_id d)) prev x)
        else x)"
proof (cases "doc_id x = doc_id d")
  case True
  let ?x' = "case previousBalance d of
               None \<Rightarrow> x
             | Some prev \<Rightarrow> restoreFields (nowISO remote (doc_id d)) prev x"
  have "doc_id ?x' = doc_id d"
    using True by (simp split: option.splits)
  with assms have "restoredBy remote ds ?x' = ?x'"
    by (intro restoredBy_fresh) simp
  moreover have "restoredBy remote (d # ds) x = ?x'"
    using True by (simp add: restoredBy_def)
  ultimately show ?thesis using True by simp
next
  case False
  then show ?thesis by (auto simp: restoredBy_def)
qed

lemma restoreLoop_result:
  assumes "distinct (map doc_id ds)"
  shows "restoreLoop remote ds store n =
     (updatedDocuments remote (filter hasSnapshot ds) = filter hasSnapshot ds
      \<and> 0 < n + length (filter hasSnapshot ds),
      map (restoredBy remote (updatedDocuments remote (filter hasSnapshot ds))) store)"
  using assms
proof (induction ds arbitrary: store n)
  case Nil
  then show ?case by (simp add: updatedDocuments_def map_idI)
next
  case (Cons d ds)
  let ?todo = "filter hasSnapshot ds"
  from Cons.prems have dist: "distinct (map doc_id ds)" by simp
  show ?case
  proof (cases "previousBalance d")
    case None
    then have "\<not> hasSnapshot d" by (simp add: hasSnapshot_def)
    with None show ?thesis
      by (simp add: Cons.IH [OF dist])
  next
    case (Some prev)
    then have snap: "hasSnapshot d" by (simp add: hasSnapshot_def)
    show ?thesis
    proof (cases "updateThrows remote (doc_id d)")
      case True
      with Some snap show ?thesis
        by (simp add: updatedDocuments_def map_idI)
    next
      case False
      have "set (updatedDocuments remote ?todo) \<subseteq> set ds"
        by (auto simp: updatedDocuments_def dest: set_takeWhileD)
      with Cons.prems have fresh: "doc_id d \<notin> doc_id ` set (updatedDocuments remote ?todo)"
        by auto
      have split: "updatedDocuments remote (d # ?todo) = d # updatedDocuments remote ?todo"
        using False by (simp add: updatedDocuments_def)
      have step: "restoredBy remote (updatedDocuments remote ?todo)
            (if doc_id x = doc_id d
             then restoreFields (nowISO remote (doc_id d)) prev x else x)
          = restoredBy remote (d # updatedDocuments remote ?todo) x" for x
        using restoredBy_Cons [OF fresh, of remote x] Some by simp
      have docs: "map (restoredBy remote (updatedDocuments remote ?todo))
            (updateDocument store (doc_id d) (restoreFields (nowISO remote (doc_id d)) prev))
          = map (restoredBy remote (d # updatedDocuments remote ?todo)) store"
        unfolding updateDocument_def map_map o_def step ..
      from Some False snap show ?thesis
        by (simp add: Cons.IH [OF dist] split docs)
    qed
  qed
qed

lemma find_in_filter:
  assumes "distinct (map doc_id store)" and "x \<in> set store"
  shows "find (\<lambda>d. doc_id d = doc_id x) (filter P store) = (if P x then Some x else None)"
  using assms
proof (induction store)
  case Nil
  then show ?case by simp
next
  case (Cons y ys)
  show ?case
  proof (cases "x = y")
    case True
    with Cons.prems have "find (\<lambda>d. doc_id d = doc_id x) ys = None"
      by (intro find_fresh_id) simp
    then have "find (\<lambda>d. doc_id d = doc_id x) (filter P ys) = None"
      by (auto simp: find_None_iff)
    with True show ?thesis by simp
  next
    case False
    with Cons.prems have "doc_id y \<noteq> doc_id x" by force
    with Cons False show ?thesis by auto
  qed
qed

lemma find_by_id:
  assumes "distinct (map doc_id ds)" and "set ds \<subseteq> set store" and "distinct (map doc_id store)"
    and "x \<in> set store"
  shows "find (\<lambda>d. doc_id d = doc_id x) ds = (if x \<in> set ds then Some x else None)"
proof (cases "x \<in> set ds")
  case True
  have "find (\<lambda>d. doc_id d = doc_id x) ds = Some x"
    using assms(1) True
  proof (induction ds)
    case Nil
    then show ?case by simp
  next
    case (Cons y ys)
    show ?case
    proof (cases "x = y")
      case True
      then show ?thesis by simp
    next
      case False
      with Cons.prems have "x \<in> set ys" by simp
      with Cons.prems have "doc_id y \<noteq> doc_id x" by force
      with Cons False show ?thesis by auto
    qed
  qed
  with True show ?thesis by simp
next
  case False
  have "doc_id d \<noteq> doc_id x" if "d \<in> set ds" for d
  proof
    assume same: "doc_id d = doc_id x"
    from that assms(2) have "d \<in> set store" by blast
    with assms(3,4) same have "d = x"
      by (meson distinct_map inj_onD)
    with that False show False by simp
  qed
  with False show ?thesis by (simp add: find_None_iff)
qed

lemma updatedDocuments_subset: "set (updatedDocuments remote ds) \<subseteq> set ds"
  by (auto simp: updatedDocuments_def dest: set_takeWhileD)

lemma updatedDocuments_distinct:
  assumes "distinct (map doc_id ds)"
  shows "distinct (map doc_id (updatedDocuments remote ds))"
proof -
  have "updatedDocuments remote ds @ dropWhile (\<lambda>d. \<not> updateThrows remote (doc_id d)) ds = ds"
    by (simp add: updatedDocuments_def)
  with assms show ?thesis
    by (metis distinct_append map_append)
qed

lemma restoredBy_member:
  assumes "distinct (map doc_id store)" and "x \<in> set store"
    and "set ds \<subseteq> set store" and "distinct (map doc_id ds)"
    and "\<forall>d \<in> set ds. hasSnapshot d"
  shows "restoredBy remote ds x =
     (if x \<in> set ds
      then x\<lparr>balance := the (previousBalance x), lastUpdated := nowISO remote (doc_id x),
             previousBalance := None, previousBalanceTimestamp := None,
             importBatchId := None\<rparr>
      else x)"
proof (cases "x \<in> set ds")
  case True
  with assms(5) obtain prev where "previousBalance x = Some prev"
    by (auto simp: hasSnapshot_def)
  with True find_by_id [OF assms(4,3,1,2)] show ?thesis
    by (simp add: restoredBy_def restoreFields_def)
next
  case False
  with find_by_id [OF assms(4,3,1,2)] show ?thesis
    by (simp add: restoredBy_def)
qed

text \<open>
  Claim C6, as amended. Without configuration the function throws, and when
  \<^verbatim>\<open>listDocuments\<close> throws it returns false and writes nothing. Otherwise it goes
  through the documents of the user's batch that have a snapshot, in the order they are
  listed, and gives each \<open>balance := previousBalance\<close>, clearing \<open>previousBalance\<close>,
  \<open>previousBalanceTimestamp\<close> and \<open>importBatchId\<close>, until an update throws; every other
  document is left as it is. It returns true exactly when there was such a document and
  no update threw. So when every update succeeds, every document of the batch with a
  snapshot is restored and the result is true exactly when there is one; when an update
  throws, the documents before it stay restored, the others are not restored, and the
  result is false. When the batch has no balance document the function returns false
  and writes nothing, with no exception.
\<close>

theorem restoreBalancesFromSnapshot_restores:
  assumes "distinct (map doc_id store)"
  shows "restoreBalancesFromSnapshot remote store user batch =
       (if \<not> balancesConfigured remote then Inl ''Appwrite env not configured''
        else if listThrows remote then Inr (False, store)
        else Inr (updatedDocuments remote (snapshots store user batch) = snapshots store user batch
                    \<and> snapshots store user batch \<noteq> [],
                  map (\<lambda>d. if d \<in> set (updatedDocuments remote (snapshots store user batch))
                           then d\<lparr>balance := the (previousBalance d),
                                  lastUpdated := nowISO remote (doc_id d),
                                  previousBalance := None,
                                  previousBalanceTimestamp := None,
                                  importBatchId := None\<rparr>
                           else d) store))
     \<and> (balancesConfigured remote \<and> \<not> listThrows remote
          \<and> (\<forall>d \<in> set (snapshots store user batch). \<not> updateThrows remote (doc_id d)) \<longrightarrow>
            restoreBalancesFromSnapshot remote store user batch =
              Inr (\<exists>d \<in> set store. inBatch user batch d \<and> previousBalance d \<noteq> None,
                   map (\<lambda>d. case previousBalance d of
                                None \<Rightarrow> d
                              | Some prev \<Rightarrow>
                                  if inBatch user batch d
                                  then d\<lparr>balance := prev, lastUpdated := nowISO remote (doc_id d),
                                         previousBalance := None,
                                         previousBalanceTimestamp := None,
                                         importBatchId := None\<rparr>
                                  else d) store))
     \<and> (balancesConfigured remote \<and> (\<forall>d \<in> set store. \<not> inBatch user batch d) \<longrightarrow>
            restoreBalancesFromSnapshot remote store user batch = Inr (False, store))"
proof -
  let ?ds = "listBatchBalances store user batch"
  let ?todo = "snapshots store user batch"
  let ?done = "updatedDocuments remote ?todo"
  let ?restore = "\<lambda>d. d\<lparr>balance := the (previousBalance d),
                         lastUpdated := nowISO remote (doc_id d),
                         previousBalance := None, previousBalanceTimestamp := None,
                         importBatchId := None\<rparr>"
  let ?result = "Inr (?done = ?todo \<and> ?todo \<noteq> [],
                      map (\<lambda>d. if d \<in> set ?done then ?restore d else d) store)"
  have todo: "filter hasSnapshot ?ds = ?todo"
    by (simp add: listBatchBalances_def snapshots_def)
  have dist: "distinct (map doc_id ?ds)"
    using assms by (simp add: listBatchBalances_def distinct_map_filter)
  have dtodo: "distinct (map doc_id ?todo)"
    using assms by (simp add: snapshots_def distinct_map_filter)
  have sub: "set ?done \<subseteq> set store"
    using updatedDocuments_subset [of remote ?todo] by (auto simp: snapshots_def)
  have snaps: "\<forall>d \<in> set ?done. hasSnapshot d"
    using updatedDocuments_subset [of remote ?todo] by (auto simp: snapshots_def)
  have docs: "map (restoredBy remote ?done) store
      = map (\<lambda>d. if d \<in> set ?done then ?restore d else d) store"
    by (rule map_cong [OF refl])
      (rule restoredBy_member [OF assms _ sub updatedDocuments_distinct [OF dtodo] snaps])
  have loop: "Inr (restoreLoop remote ?ds store 0) = ?result"
    unfolding restoreLoop_result [OF dist] todo docs by simp
  have general: "restoreBalancesFromSnapshot remote store user batch =
       (if \<not> balancesConfigured remote then Inl ''Appwrite env not configured''
        else if listThrows remote then Inr (False, store)
        else ?result)"
  proof (cases "?ds = []")
    case True
    then have "?todo = []"
      using todo by (metis filter.simps(1))
    then have "?result = Inr (False, store)"
      by (simp add: updatedDocuments_def map_idI)
    with True show ?thesis
      by (simp add: restoreBalancesFromSnapshot_def)
  next
    case False
    with loop show ?thesis
      by (simp add: restoreBalancesFromSnapshot_def)
  qed
  have reliable: "restoreBalancesFromSnapshot remote store user batch =
       Inr (\<exists>d \<in> set store. inBatch user batch d \<and> previousBalance d \<noteq> None,
            map (\<lambda>d. case previousBalance d of
                         None \<Rightarrow> d
                       | Some prev \<Rightarrow>
                           if inBatch user batch d
                           then d\<lparr>balance := prev, lastUpdated := nowISO remote (doc_id d),
                                  previousBalance := None,
                                  previousBalanceTimestamp := None,
                                  importBatchId := None\<rparr>
                           else d) store)"
    if ok: "balancesConfigured remote \<and> \<not> listThrows remote
          \<and> (\<forall>d \<in> set ?todo. \<not> updateThrows remote (doc_id d))"
  proof -
    from ok have all: "?done = ?todo"
      by (simp add: updatedDocuments_def)
    have flag: "(?todo \<noteq> []) = (\<exists>d \<in> set store. inBatch user batch d \<and> previousBalance d \<noteq> None)"
      by (auto simp: snapshots_def hasSnapshot_def filter_empty_conv)
    have same: "(if d \<in> set ?todo then ?restore d else d) =
        (case previousBalance d of
           None \<Rightarrow> d
         | Some prev \<Rightarrow>
             if inBatch user batch d
             then d\<lparr>balance := prev, lastUpdated := nowISO remote (doc_id d),
                    previousBalance := None, previousBalanceTimestamp := None,
                    importBatchId := None\<rparr>
             else d)" if "d \<in> set store" for d
      using that by (auto simp: snapshots_def hasSnapshot_def split: option.splits)
    have "map (\<lambda>d. if d \<in> set ?todo then ?restore d else d) store =
        map (\<lambda>d. case previousBalance d of
                     None \<Rightarrow> d
                   | Some prev \<Rightarrow>
                       if inBatch user batch d
                       then d\<lparr>balance := prev, lastUpdated := nowISO remote (doc_id d),
                              previousBalance := None, previousBalanceTimestamp := None,
                              importBatchId := None\<rparr>
                       else d) store"
      by (rule map_cong [OF refl]) (rule same)
    with general ok all flag show ?thesis by simp
  qed
  have absent: "restoreBalancesFromSnapshot remote store user batch = Inr (False, store)"
    if no: "balancesConfigured remote \<and> (\<forall>d \<in> set store. \<not> inBatch user batch d)"
  proof -
    from no have "?ds = []"
      by (simp add: listBatchBalances_def filter_empty_conv)
    with no show ?thesis
      by (simp add: restoreBalancesFromSnapshot_def)
  qed
  from general reliable absent show ?thesis by blast
qed

lemma sample_distinct: "distinct (map doc_id sampleBalances)"
  by (simp add: sampleBalances_def)

theorem restoreBalancesFromSnapshot_restores_witness:
  "distinct (map doc_id sampleBalances)
   \<and> restoreBalancesFromSnapshot reliableRemote sampleBalances ''u'' ''b1'' =
       Inr (True,
         [\<lparr>doc_id = ''d1'', doc_userId = ''u'', doc_accountKey = ''k1'', balance = fromInt 0,
            lastUpdated = ''t2-d1'', previousBalance = None, previousBalanceTimestamp = None,
            importBatchId = None\<rparr>,
          \<lparr>doc_id = ''d2'', doc_userId = ''u'', doc_accountKey = ''k2'', balance = fromInt 300,
            lastUpdated = ''t1'', previousBalance = None, previousBalanceTimestamp = None,
            importBatchId = Some ''b1''\<rparr>,
          \<lparr>doc_id = ''d3'', doc_userId = ''v'', doc_accountKey = ''k1'', balance = fromInt 55,
            lastUpdated = ''t0'', previousBalance = Some (fromInt 10),
            previousBalanceTimestamp = Some ''t0'', importBatchId = Some ''b0''\<rparr>,
          \<lparr>doc_id = ''d4'', doc_userId = ''u'', doc_accountKey = ''k4'', balance = fromInt 40,
            lastUpdated = ''t2-d4'', previousBalance = None, previousBalanceTimestamp = None,
            importBatchId = None\<rparr>,
          \<lparr>doc_id = ''d5'', doc_userId = ''u'', doc_accountKey = ''k5'', balance = fromInt 11,
            lastUpdated = ''t2-d5'', previousBalance = None, previousBalanceTimestamp = None,
            importBatchId = None\<rparr>])
   \<and> restoreBalancesFromSnapshot reliableRemote sampleBalances ''u'' ''b9'' =
       Inr (False, sampleBalances)"
proof -
  note t1 = restoreBalancesFromSnapshot_restores
    [OF sample_distinct, where remote = reliableRemote and user = "''u''" and batch = "''b1''",
     THEN conjunct2, THEN conjunct1, THEN mp]
  note t9 = restoreBalancesFromSnapshot_restores
    [OF sample_distinct, where remote = reliableRemote and user = "''u''" and batch = "''b9''",
     THEN conjunct2, THEN conjunct2, THEN mp]
  have ok: "balancesConfigured reliableRemote \<and> \<not> listThrows reliableRemote
      \<and> (\<forall>d \<in> set (snapshots sampleBalances ''u'' ''b1'').
            \<not> updateThrows reliableRemote (doc_id d))"
    by (simp add: reliableRemote_def)
  have none: "balancesConfigured reliableRemote
      \<and> (\<forall>d \<in> set sampleBalances. \<not> inBatch ''u'' ''b9'' d)"
    by (simp add: reliableRemote_def sampleBalances_def inBatch_def)
  have a: "restoreBalancesFromSnapshot reliableRemote sampleBalances ''u'' ''b1'' =
       Inr (True,
         [\<lparr>doc_id = ''d1'', doc_userId = ''u'', doc_accountKey = ''k1'', balance = fromInt 0,
            lastUpdated = ''t2-d1'', previousBalance = None, previousBalanceTimestamp = None,
            importBatchId = None\<rparr>,
          \<lparr>doc_id = ''d2'', doc_userId = ''u'', doc_accountKey = ''k2'', balance = fromInt 300,
            lastUpdated = ''t1'', previousBalance = None, previousBalanceTimestamp = None,
            importBatchId = Some ''b1''\<rparr>,
          \<lparr>doc_id = ''d3'', doc_userId = ''v'', doc_accountKey = ''k1'', balance = fromInt 55,
            lastUpdated = ''t0'', previousBalance = Some (fromInt 10),
            previousBalanceTimestamp = Some ''t0'', importBatchId = Some ''b0''\<rparr>,
          \<lparr>doc_id = ''d4'', doc_userId = ''u'', doc_accountKey = ''k4'', balance = fromInt 40,
            lastUpdated = ''t2-d4'', previousBalance = None, previousBalanceTimestamp = None,
            importBatchId = None\<rparr>,
          \<lparr>doc_id = ''d5'', doc_userId = ''u'', doc_accountKey = ''k5'', balance = fromInt 11,
            lastUpdated = ''t2-d5'', previousBalance = None, previousBalanceTimestamp = None,
            importBatchId = None\<rparr>])"
    using t1 [OF ok] by (simp add: sampleBalances_def inBatch_def reliableRemote_def)
  from a t9 [OF none] sample_distinct show ?thesis
    by (intro conjI)
qed

text \<open>
  The claim as written returns true when at least one document was restored, and
  restores every document of the batch that has a snapshot. Here the documents \<open>d1\<close>,
  \<open>d4\<close> and \<open>d5\<close> of the batch have snapshots and the update of \<open>d4\<close> throws:
  \<open>d1\<close> is restored, \<open>d4\<close> and \<open>d5\<close> are not, and the result is false.
\<close>

theorem restoreBalancesFromSnapshot_partial_counterexample:
  "map previousBalance (snapshots sampleBalances ''u'' ''b1'')
       = [Some (fromInt 0), Some (fromInt 40), Some (fromInt 11)]
   \<and> restoreBalancesFromSnapshot failingRemote sampleBalances ''u'' ''b1'' =
       Inr (False,
         [\<lparr>doc_id = ''d1'', doc_userId = ''u'', doc_accountKey = ''k1'', balance = fromInt 0,
            lastUpdated = ''t2-d1'', previousBalance = None, previousBalanceTimestamp = None,
            importBatchId = None\<rparr>,
          \<lparr>doc_id = ''d2'', doc_userId = ''u'', doc_accountKey = ''k2'', balance = fromInt 300,
            lastUpdated = ''t1'', previousBalance = None, previousBalanceTimestamp = None,
            importBatchId = Some ''b1''\<rparr>,
          \<lparr>doc_id = ''d3'', doc_userId = ''v'', doc_accountKey = ''k1'', balance = fromInt 55,
            lastUpdated = ''t0'', previousBalance = Some (fromInt 10),
            previousBalanceTimestamp = Some ''t0'', importBatchId = Some ''b0''\<rparr>,
          \<lparr>doc_id = ''d4'', doc_userId = ''u'', doc_accountKey = ''k4'', balance = fromInt 900,
            lastUpdated = ''t1'', previousBalance = Some (fromInt 40),
            previousBalanceTimestamp = Some ''t1'', importBatchId = Some ''b1''\<rparr>,
          \<lparr>doc_id = ''d5'', doc_userId = ''u'', doc_accountKey = ''k5'', balance = fromInt 12,
            lastUpdated = ''t1'', previousBalance = Some (fromInt 11),
            previousBalanceTimestamp = Some ''t1'', importBatchId = Some ''b1''\<rparr>])"
  by (simp add: restoreBalancesFromSnapshot_def listBatchBalances_def inBatch_def
      updateDocument_def restoreFields_def snapshots_def hasSnapshot_def failingRemote_def
      reliableRemote_def sampleBalances_def)

section \<open>Properties of the bulk upload\<close>

lemma uploadItem_result:
  "uploadItem env u False j =
     (if accepted env u j then (ItemSuccess j, []) else (ItemNull, [rejectionMessage env u j]))"
  by (simp add: uploadItem_def accepted_def rejectionMessage_def Let_def
      split: CreateOutcome.splits)

lemma shifted_upt: "map (\<lambda>k. f (i + k)) [0..<n] = map f [i..<i + n]"
proof -
  have "map f [i..<i + n] = map f (map (\<lambda>k. k + i) [0..<n])"
    by (simp add: map_add_upt add.commute)
  then show ?thesis by (simp add: o_def add.commute)
qed

lemma successIndices_accepted:
  "successIndices (map (\<lambda>j. fst (uploadItem env u False j)) js) = filter (accepted env u) js"
  by (induction js) (simp_all add: successIndices_def uploadItem_result)

lemma successCount_accepted:
  "(fst (uploadItem env u False j) \<noteq> ItemNull) = accepted env u j"
  by (simp add: uploadItem_result)

lemma errors_rejected:
  "concat (map (\<lambda>j. snd (uploadItem env u False j)) js)
     = map (rejectionMessage env u) (filter (\<lambda>j. \<not> accepted env u j) js)"
  by (induction js) (simp_all add: uploadItem_result)

lemma processBatch_result:
  assumes "\<And>idx w. uploads (onB idx w) = uploads w"
  shows "\<exists>w'. processBatch env u False onB i batch res w =
      (res\<lparr>created := created res + length (filter (accepted env u) [i..<i + length batch]),
           errors := errors res @ map (rejectionMessage env u)
                       (filter (\<lambda>j. \<not> accepted env u j) [i..<i + length batch]),
           successfulIndices := successfulIndices res
                       @ filter (accepted env u) [i..<i + length batch]\<rparr>, w')
      \<and> uploads w' = uploads w @ map (\<lambda>t. (u, tx_id t)) batch"
  by (simp add: processBatch_def Let_def shifted_upt o_def successIndices_accepted
      successCount_accepted errors_rejected assms tick_def)

lemma batch_full:
  assumes "m \<le> length (drop n xs)"
  shows "m = 0 \<or> length (take n xs) = n"
proof (cases "n \<le> length xs")
  case True
  then show ?thesis by simp
next
  case False
  with assms show ?thesis by simp
qed

lemma upt_batch:
  assumes "m = 0 \<or> b = n"
  shows "[i..<i + (b + m)] = [i..<i + b] @ [i + n..<i + n + m]"
proof (cases "m = 0")
  case True
  then show ?thesis by simp
next
  case False
  with assms have "b = n" by simp
  moreover have "[i..<i + n + m] = [i..<i + n] @ [i + n..<i + n + m]"
    by (rule upt_add_eq_append) simp
  ultimately show ?thesis by (simp add: add.assoc)
qed

lemma take_batch:
  assumes "m = 0 \<or> length (take n xs) = n"
  shows "take (length (take n xs) + m) xs = take n xs @ take m (drop n xs)"
proof (cases "m = 0")
  case True
  have "take (min (length xs) n) xs = take n xs"
    by (cases "n \<le> length xs") (simp_all add: min_def)
  with True show ?thesis by simp
next
  case False
  with assms have "length (take n xs) = n" by simp
  then show ?thesis by (simp only: take_add)
qed
lemma bulkLoop_result:
  assumes "\<And>idx w. uploads (onB idx w) = uploads w"
  shows "\<exists>m w'. m \<le> length txs
      \<and> bulkLoop env u sc onB i txs res w =
         (res\<lparr>created := created res + length (filter (accepted env u) [i..<i + m]),
              errors := errors res @ map (rejectionMessage env u)
                          (filter (\<lambda>j. \<not> accepted env u j) [i..<i + m]),
              successfulIndices := successfulIndices res
                          @ filter (accepted env u) [i..<i + m]\<rparr>, w')
      \<and> uploads w' = uploads w @ map (\<lambda>t. (u, tx_id t)) (take m txs)
      \<and> ((\<forall>w. \<not> sc w) \<longrightarrow> m = length txs)"
  using assms
proof (induction env u sc onB i txs res w rule: bulkLoop.induct)
  case (1 env userId shouldCancel onBatchSuccess i res w)
  show ?case by (rule exI [of _ 0]) simp
next
  case (2 env u sc onB i tx txs res w)
  show ?case
  proof (cases "sc w")
    case True
    show ?thesis
      by (rule exI [of _ 0]) (use True in auto)
  next
    case False
    let ?batch = "take BATCH_SIZE (tx # txs)"
    let ?b = "length ?batch"
    obtain res1 w1 where pb: "processBatch env u False onB i ?batch res w = (res1, w1)"
      by (metis surj_pair)
    from processBatch_result [where onB = onB and env = env and u = u and i = i
        and batch = ?batch and res = res and w = w, OF "2.prems"] pb
    have res1: "res1 = res\<lparr>created := created res + length (filter (accepted env u) [i..<i + ?b]),
           errors := errors res @ map (rejectionMessage env u)
                       (filter (\<lambda>j. \<not> accepted env u j) [i..<i + ?b]),
           successfulIndices := successfulIndices res
                       @ filter (accepted env u) [i..<i + ?b]\<rparr>"
      and w1: "uploads w1 = uploads w @ map (\<lambda>t. (u, tx_id t)) ?batch"
      by auto
    from pb False have pb': "(res1, w1) = processBatch env u (sc w) onB i ?batch res w"
      by simp
    from "2.IH" [OF False pb' "2.prems"] obtain m w' where
      m: "m \<le> length (drop BATCH_SIZE (tx # txs))"
      and loop: "bulkLoop env u sc onB (i + BATCH_SIZE) (drop BATCH_SIZE (tx # txs)) res1 w1 =
         (res1\<lparr>created := created res1
                  + length (filter (accepted env u) [i + BATCH_SIZE..<i + BATCH_SIZE + m]),
              errors := errors res1 @ map (rejectionMessage env u)
                  (filter (\<lambda>j. \<not> accepted env u j) [i + BATCH_SIZE..<i + BATCH_SIZE + m]),
              successfulIndices := successfulIndices res1
                  @ filter (accepted env u) [i + BATCH_SIZE..<i + BATCH_SIZE + m]\<rparr>, w')"
      and up: "uploads w' = uploads w1 @ map (\<lambda>t. (u, tx_id t)) (take m (drop BATCH_SIZE (tx # txs)))"
      and full: "(\<forall>w. \<not> sc w) \<longrightarrow> m = length (drop BATCH_SIZE (tx # txs))"
      by blast
    have b: "m = 0 \<or> ?b = BATCH_SIZE"
      using m by (rule batch_full)
    have span: "[i..<i + (?b + m)] = [i..<i + ?b] @ [i + BATCH_SIZE..<i + BATCH_SIZE + m]"
      using b by (rule upt_batch)
    have tk: "take (?b + m) (tx # txs) = ?batch @ take m (drop BATCH_SIZE (tx # txs))"
      using b by (rule take_batch)
    have "?b + length (drop BATCH_SIZE (tx # txs)) = length (tx # txs)"
      by (simp only: length_take length_drop)
    with m have le: "?b + m \<le> length (tx # txs)"
      by arith
    have eq: "bulkLoop env u sc onB i (tx # txs) res w =
        bulkLoop env u sc onB (i + BATCH_SIZE) (drop BATCH_SIZE (tx # txs)) res1 w1"
      using False pb by simp
    show ?thesis
    proof (intro exI [of _ "?b + m"] exI [of _ w'] conjI)
      show "?b + m \<le> length (tx # txs)" by (rule le)
      show "bulkLoop env u sc onB i (tx # txs) res w =
         (res\<lparr>created := created res + length (filter (accepted env u) [i..<i + (?b + m)]),
              errors := errors res @ map (rejectionMessage env u)
                          (filter (\<lambda>j. \<not> accepted env u j) [i..<i + (?b + m)]),
              successfulIndices := successfulIndices res
                          @ filter (accepted env u) [i..<i + (?b + m)]\<rparr>, w')"
        unfolding eq loop span by (simp add: res1)
      show "uploads w' = uploads w @ map (\<lambda>t. (u, tx_id t)) (take (?b + m) (tx # txs))"
        unfolding tk up w1 by simp
      show "(\<forall>w. \<not> sc w) \<longrightarrow> ?b + m = length (tx # txs)"
        using full \<open>?b + length (drop BATCH_SIZE (tx # txs)) = length (tx # txs)\<close> by auto
    qed
  qed
qed

lemma duplicate_accepted:
  assumes "createDocument env u i = CreateThrew (Some msg)" and "str_includes msg ''already exists''"
  shows "accepted env u i"
proof -
  from assms(2) have "msg \<noteq> []" by auto
  with assms show ?thesis
    by (simp add: accepted_def errorMessage_def isDuplicateMessage_def)
qed

text \<open>
  Claim C4. A bulk upload with the collection configured returns a result. The
  transactions it sent are the first \<open>m\<close> of the array, all of them when the upload is
  never cancelled. Among those, a transaction whose create failed with a message
  containing "already exists" is in \<open>successfulIndices\<close>; \<open>created\<close> counts exactly the
  entries of \<open>successfulIndices\<close>, which are the transactions created or already
  existing; \<open>failed\<close> counts only the others.
\<close>

theorem createBulkTransactions_duplicate_is_success:
  assumes "transactionsConfigured env"
    and "\<And>idx w. uploads (onBatchSuccess idx w) = uploads w"
  shows "\<exists>m res w'.
        createBulkTransactions env u txs shouldCancel onBatchSuccess w = Inr (res, w')
      \<and> m \<le> length txs
      \<and> uploads w' = uploads w @ map (\<lambda>t. (u, tx_id t)) (take m txs)
      \<and> ((\<forall>w. \<not> shouldCancel w) \<longrightarrow> m = length txs)
      \<and> (\<forall>i msg. i < m \<and> createDocument env u i = CreateThrew (Some msg)
            \<and> str_includes msg ''already exists'' \<longrightarrow> i \<in> set (successfulIndices res))
      \<and> successfulIndices res = filter (accepted env u) [0..<m]
      \<and> created res = length (successfulIndices res)
      \<and> failed res = length (filter (\<lambda>i. \<not> accepted env u i) [0..<m])"
proof -
  let ?res0 = "\<lparr>created = 0, errors = [], successfulIndices = []\<rparr>"
  from bulkLoop_result [where onB = onBatchSuccess and env = env and u = u and sc = shouldCancel
      and i = 0 and txs = txs and res = ?res0 and w = w, OF assms(2)]
  obtain m w' where m: "m \<le> length txs"
    and loop: "bulkLoop env u shouldCancel onBatchSuccess 0 txs ?res0 w =
         (\<lparr>created = length (filter (accepted env u) [0..<m]),
           errors = map (rejectionMessage env u) (filter (\<lambda>j. \<not> accepted env u j) [0..<m]),
           successfulIndices = filter (accepted env u) [0..<m]\<rparr>, w')"
    and up: "uploads w' = uploads w @ map (\<lambda>t. (u, tx_id t)) (take m txs)"
    and full: "(\<forall>w. \<not> shouldCancel w) \<longrightarrow> m = length txs"
    by auto
  let ?res = "\<lparr>created = length (filter (accepted env u) [0..<m]),
           errors = map (rejectionMessage env u) (filter (\<lambda>j. \<not> accepted env u j) [0..<m]),
           successfulIndices = filter (accepted env u) [0..<m]\<rparr>"
  have run: "createBulkTransactions env u txs shouldCancel onBatchSuccess w = Inr (?res, w')"
    using assms(1) loop by (simp add: createBulkTransactions_def)
  have dup: "\<forall>i msg. i < m \<and> createDocument env u i = CreateThrew (Some msg)
            \<and> str_includes msg ''already exists'' \<longrightarrow> i \<in> set (successfulIndices ?res)"
    using duplicate_accepted by auto
  show ?thesis
  proof (intro exI [of _ m] exI [of _ ?res] exI [of _ w'] conjI)
    show "createBulkTransactions env u txs shouldCancel onBatchSuccess w = Inr (?res, w')"
      by (rule run)
    show "m \<le> length txs" by (rule m)
    show "uploads w' = uploads w @ map (\<lambda>t. (u, tx_id t)) (take m txs)" by (rule up)
    show "(\<forall>w. \<not> shouldCancel w) \<longrightarrow> m = length txs" by (rule full)
    show "\<forall>i msg. i < m \<and> createDocument env u i = CreateThrew (Some msg)
            \<and> str_includes msg ''already exists'' \<longrightarrow> i \<in> set (successfulIndices ?res)"
      by (rule dup)
    show "successfulIndices ?res = filter (accepted env u) [0..<m]" by simp
    show "created ?res = length (successfulIndices ?res)" by simp
    show "failed ?res = length (filter (\<lambda>i. \<not> accepted env u i) [0..<m])"
      by (simp add: failed_def)
  qed
qed

theorem createBulkTransactions_duplicate_is_success_witness:
  "transactionsConfigured partlyUploaded
   \<and> createDocument partlyUploaded ''u1'' 1
        = CreateThrew (Some ''Document with the requested ID already exists'')
   \<and> createBulkTransactions partlyUploaded ''u1'' (queue fivePending) (\<lambda>w. False)
        (markBatchCompleted (queue fivePending)) fivePending =
       Inr (\<lparr>created = 4, errors = [''Unknown error''], successfulIndices = [0, 1, 3, 4]\<rparr>,
            \<lparr>queue = [(mkTx ''a'' ''u1'' 1)\<lparr>syncStatus := Completed\<rparr>,
                      (mkTx ''b'' ''u1'' 1)\<lparr>syncStatus := Completed\<rparr>,
                      mkTx ''c'' ''u1'' 0,
                      (mkTx ''d'' ''u1'' 1)\<lparr>syncStatus := Completed\<rparr>,
                      (mkTx ''e'' ''u1'' 1)\<lparr>syncStatus := Completed\<rparr>],
             clock = 3,
             uploads = [(''u1'', ''a''), (''u1'', ''b''), (''u1'', ''c''), (''u1'', ''d''),
                        (''u1'', ''e'')]\<rparr>)"
proof -
  let ?run = "createBulkTransactions partlyUploaded ''u1'' (queue fivePending) (\<lambda>w. False)
        (markBatchCompleted (queue fivePending)) fivePending"
  have c: "transactionsConfigured partlyUploaded"
    and d: "createDocument partlyUploaded ''u1'' 1
        = CreateThrew (Some ''Document with the requested ID already exists'')"
    by (simp_all add: partlyUploaded_def)
  have p: "uploads (markBatchCompleted (queue fivePending) idx w) = uploads w" for idx w
    by (simp add: markBatchCompleted_def)
  have v: "?run =
       Inr (\<lparr>created = 4, errors = [''Unknown error''], successfulIndices = [0, 1, 3, 4]\<rparr>,
            \<lparr>queue = [(mkTx ''a'' ''u1'' 1)\<lparr>syncStatus := Completed\<rparr>,
                      (mkTx ''b'' ''u1'' 1)\<lparr>syncStatus := Completed\<rparr>,
                      mkTx ''c'' ''u1'' 0,
                      (mkTx ''d'' ''u1'' 1)\<lparr>syncStatus := Completed\<rparr>,
                      (mkTx ''e'' ''u1'' 1)\<lparr>syncStatus := Completed\<rparr>],
             clock = 3,
             uploads = [(''u1'', ''a''), (''u1'', ''b''), (''u1'', ''c''), (''u1'', ''d''),
                        (''u1'', ''e'')]\<rparr>)"
    by (simp add: startSyncingTransactions_def deleteNotCompleted_def deleteActive_def tick_def
        isPendingForSync_def MAX_RETRY_ATTEMPTS_def groupByUser_def groupInsert_def
        markSyncing_def hasId_def resetSyncing_def createBulkTransactions_def
        processBatch_def BATCH_SIZE_def uploadItem_def successIndices_def
        markBatchCompleted_def finalizeUser_def requeueAfterError_def isNetworkError_def
        failed_def errorMessage_def isDuplicateMessage_def partlyUploaded_def fivePending_def mkTx_def)
  from createBulkTransactions_duplicate_is_success [where env = partlyUploaded
      and onBatchSuccess = "markBatchCompleted (queue fivePending)" and u = "''u1''"
      and txs = "queue fivePending" and shouldCancel = "\<lambda>w. False" and w = fivePending,
      OF c p]
  obtain m res w' where "?run = Inr (res, w')" and "m = length (queue fivePending)"
    and "\<forall>i msg. i < m \<and> createDocument partlyUploaded ''u1'' i = CreateThrew (Some msg)
            \<and> str_includes msg ''already exists'' \<longrightarrow> i \<in> set (successfulIndices res)"
    by blast
  with d have "1 \<in> set (successfulIndices res)"
    by (simp add: fivePending_def)
  with c d v show ?thesis by simp
qed

section \<open>Properties of the sync run\<close>

text \<open>
  Claim C2. If the delete operation read at the start of the call exists and its status
  is not completed, the run returns \<open>(0, 0)\<close>; it requests no upload and leaves the
  queue as it was.
\<close>

theorem startSync_aborts_on_delete:
  assumes "deleteStatusAt env (clock w) = Some operation"
    and "op_status operation \<noteq> DelCompleted"
  shows "startSyncingTransactions env w = ((0, 0), w\<lparr>clock := clock w + 1\<rparr>)
       \<and> uploads (snd (startSyncingTransactions env w)) = uploads w
       \<and> queue (snd (startSyncingTransactions env w)) = queue w"
  using assms by (simp add: startSyncingTransactions_def deleteNotCompleted_def tick_def)

theorem startSync_aborts_on_delete_witness:
  "deleteStatusAt deleteQueued (clock fivePending) = Some (deleteStarted\<lparr>op_status := DelPending\<rparr>)
   \<and> op_status (deleteStarted\<lparr>op_status := DelPending\<rparr>) \<noteq> DelCompleted
   \<and> startSyncingTransactions deleteQueued fivePending = ((0, 0), fivePending\<lparr>clock := 1\<rparr>)
   \<and> uploads (snd (startSyncingTransactions deleteQueued fivePending)) = []"
proof -
  have a: "deleteStatusAt deleteQueued (clock fivePending) = Some (deleteStarted\<lparr>op_status := DelPending\<rparr>)"
    by (simp add: deleteQueued_def)
  have b: "op_status (deleteStarted\<lparr>op_status := DelPending\<rparr>) \<noteq> DelCompleted"
    by simp
  from startSync_aborts_on_delete [OF a b] a b show ?thesis
    by (simp add: fivePending_def)
qed

text \<open>
  Claim C3, on a queue of five pending transactions of one user, with a delete
  operation that starts after the first batch of two has been uploaded. The two
  uploaded transactions are completed, the three others are pending again and none is
  left syncing; but the run returns \<open>succeeded = 0\<close>, not 2: the cancellation test after
  the bulk upload returns the counters before the result of that upload is added.
\<close>

theorem startSync_cancelled_midrun:
  "startSyncingTransactions deleteAfterFirstBatch fivePending =
     ((0, 0),
      \<lparr>queue = [(mkTx ''a'' ''u1'' 1)\<lparr>syncStatus := Completed\<rparr>,
                (mkTx ''b'' ''u1'' 1)\<lparr>syncStatus := Completed\<rparr>,
                mkTx ''c'' ''u1'' 0, mkTx ''d'' ''u1'' 0, mkTx ''e'' ''u1'' 0],
       clock = 3, uploads = [(''u1'', ''a''), (''u1'', ''b'')]\<rparr>)"
  by (simp add: startSyncingTransactions_def deleteNotCompleted_def deleteActive_def tick_def
        isPendingForSync_def MAX_RETRY_ATTEMPTS_def groupByUser_def groupInsert_def
        markSyncing_def hasId_def resetSyncing_def createBulkTransactions_def
        processBatch_def BATCH_SIZE_def uploadItem_def successIndices_def
        markBatchCompleted_def finalizeUser_def requeueAfterError_def isNetworkError_def
        failed_def errorMessage_def isDuplicateMessage_def deleteAfterFirstBatch_def fivePending_def mkTx_def)

text \<open>
  Claim C5. After an upload that threw with message \<open>msg\<close>, every queued transaction
  whose id is among the user's transactions has its attempts incremented and the
  message stored; it is pending when the message is of the network class, whatever its
  attempts, or when its attempts, this one counted, are still below the cap
  \<open>MAX_RETRY_ATTEMPTS = 3\<close> (the code writes this as
  \<^verbatim>\<open>t.attempts < MAX_RETRY_ATTEMPTS - 1\<close> on the count before the increment), and failed
  otherwise. The other transactions are untouched. In a run, a bulk upload that throws
  adds the user's transactions to the failed count, updates the queue in this way and
  lets the loop go on with the next user.
\<close>

theorem requeueAfterError_retry_cap:
  "MAX_RETRY_ATTEMPTS = 3
   \<and> length (requeueAfterError uts msg q) = length q
   \<and> (\<forall>i < length q.
        if hasId uts (tx_id (q ! i))
        then requeueAfterError uts msg q ! i =
               (q ! i)\<lparr>syncStatus :=
                          (if isNetworkError msg \<or> attempts (q ! i) + 1 < MAX_RETRY_ATTEMPTS
                           then Pending else Failed),
                        attempts := attempts (q ! i) + 1,
                        tx_error := Some msg\<rparr>
        else requeueAfterError uts msg q ! i = q ! i)
   \<and> (\<not> deleteActive (deleteStatusAt env (clock w))
        \<and> createBulkTransactions env u uts (\<lambda>w. cancelSyncAt env (clock w))
              (markBatchCompleted uts) (tick w) = Inl msg
        \<longrightarrow> syncUsers env ((u, uts) # rest) totalSucceeded totalFailed w =
            syncUsers env rest totalSucceeded (totalFailed + length uts)
              ((tick w)\<lparr>queue := requeueAfterError uts msg (queue w)\<rparr>))"
proof (intro conjI allI impI)
  show "MAX_RETRY_ATTEMPTS = 3" by (simp add: MAX_RETRY_ATTEMPTS_def)
  show "length (requeueAfterError uts msg q) = length q"
    by (simp add: requeueAfterError_def)
next
  fix i assume "i < length q"
  then show "if hasId uts (tx_id (q ! i))
        then requeueAfterError uts msg q ! i =
               (q ! i)\<lparr>syncStatus :=
                          (if isNetworkError msg \<or> attempts (q ! i) + 1 < MAX_RETRY_ATTEMPTS
                           then Pending else Failed),
                        attempts := attempts (q ! i) + 1,
                        tx_error := Some msg\<rparr>
        else requeueAfterError uts msg q ! i = q ! i"
    by (auto simp: requeueAfterError_def MAX_RETRY_ATTEMPTS_def)
next
  assume "\<not> deleteActive (deleteStatusAt env (clock w))
        \<and> createBulkTransactions env u uts (\<lambda>w. cancelSyncAt env (clock w))
              (markBatchCompleted uts) (tick w) = Inl msg"
  then show "syncUsers env ((u, uts) # rest) totalSucceeded totalFailed w =
            syncUsers env rest totalSucceeded (totalFailed + length uts)
              ((tick w)\<lparr>queue := requeueAfterError uts msg (queue w)\<rparr>)"
    by (simp add: tick_def)
qed

theorem requeueAfterError_retry_cap_witness:
  "isNetworkError ''Network request failed''
   \<and> hasId (queue retried) (tx_id (queue retried ! 1))
   \<and> requeueAfterError (queue retried) ''Network request failed'' (queue retried) ! 1 =
       (mkTx ''b'' ''u1'' 3)\<lparr>tx_error := Some ''Network request failed''\<rparr>
   \<and> \<not> isNetworkError ''Appwrite env not configured''
   \<and> requeueAfterError (queue retried) ''Appwrite env not configured'' (queue retried) ! 0 =
       (mkTx ''a'' ''u1'' 2)\<lparr>tx_error := Some ''Appwrite env not configured''\<rparr>
   \<and> requeueAfterError (queue retried) ''Appwrite env not configured'' (queue retried) ! 1 =
       (mkTx ''b'' ''u1'' 3)\<lparr>syncStatus := Failed, tx_error := Some ''Appwrite env not configured''\<rparr>
   \<and> syncUsers unconfigured [(''u1'', queue retried)] 0 0 retried =
       ((0, 2),
        \<lparr>queue = [(mkTx ''a'' ''u1'' 2)\<lparr>tx_error := Some ''Appwrite env not configured''\<rparr>,
                  (mkTx ''b'' ''u1'' 3)\<lparr>syncStatus := Failed,
                     tx_error := Some ''Appwrite env not configured''\<rparr>],
         clock = 1, uploads = []\<rparr>)"
proof -
  let ?Q = "queue retried"
  note t = requeueAfterError_retry_cap [where uts = ?Q and q = ?Q
      and env = unconfigured and w = retried and u = "''u1''" and rest = "[]"
      and totalSucceeded = 0 and totalFailed = 0]
  note entry = t [THEN conjunct2, THEN conjunct2, THEN conjunct1, rule_format]
  note run = t [THEN conjunct2, THEN conjunct2, THEN conjunct2, rule_format]
  have n: "isNetworkError ''Network request failed''"
    and m: "\<not> isNetworkError ''Appwrite env not configured''"
    by (simp_all add: isNetworkError_def)
  have h: "hasId ?Q (tx_id (?Q ! 0))" "hasId ?Q (tx_id (?Q ! 1))"
    by (simp_all add: retried_def hasId_def mkTx_def)
  have l: "0 < length ?Q" "1 < length ?Q"
    by (simp_all add: retried_def)
  have d: "\<not> deleteActive (deleteStatusAt unconfigured (clock retried))
        \<and> createBulkTransactions unconfigured ''u1'' ?Q
              (\<lambda>w. cancelSyncAt unconfigured (clock w))
              (markBatchCompleted ?Q) (tick retried) = Inl ''Appwrite env not configured''"
    by (simp add: unconfigured_def deleteActive_def createBulkTransactions_def)
  have "requeueAfterError ?Q ''Network request failed'' ?Q ! 1 =
      (?Q ! 1)\<lparr>syncStatus := (if isNetworkError ''Network request failed''
                    \<or> attempts (?Q ! 1) + 1 < MAX_RETRY_ATTEMPTS then Pending else Failed),
                attempts := attempts (?Q ! 1) + 1,
                tx_error := Some ''Network request failed''\<rparr>"
    using entry [OF l(2), of "''Network request failed''"] by (simp only: h if_True)
  then have a: "requeueAfterError ?Q ''Network request failed'' ?Q ! 1 =
       (mkTx ''b'' ''u1'' 3)\<lparr>tx_error := Some ''Network request failed''\<rparr>"
    by (simp add: n retried_def mkTx_def)
  have "requeueAfterError ?Q ''Appwrite env not configured'' ?Q ! 0 =
      (?Q ! 0)\<lparr>syncStatus := (if isNetworkError ''Appwrite env not configured''
                    \<or> attempts (?Q ! 0) + 1 < MAX_RETRY_ATTEMPTS then Pending else Failed),
                attempts := attempts (?Q ! 0) + 1,
                tx_error := Some ''Appwrite env not configured''\<rparr>"
    using entry [OF l(1), of "''Appwrite env not configured''"] by (simp only: h if_True)
  then have b: "requeueAfterError ?Q ''Appwrite env not configured'' ?Q ! 0 =
       (mkTx ''a'' ''u1'' 2)\<lparr>tx_error := Some ''Appwrite env not configured''\<rparr>"
    by (simp add: m retried_def mkTx_def MAX_RETRY_ATTEMPTS_def)
  have "requeueAfterError ?Q ''Appwrite env not configured'' ?Q ! 1 =
      (?Q ! 1)\<lparr>syncStatus := (if isNetworkError ''Appwrite env not configured''
                    \<or> attempts (?Q ! 1) + 1 < MAX_RETRY_ATTEMPTS then Pending else Failed),
                attempts := attempts (?Q ! 1) + 1,
                tx_error := Some ''Appwrite env not configured''\<rparr>"
    using entry [OF l(2), of "''Appwrite env not configured''"] by (simp only: h if_True)
  then have c: "requeueAfterError ?Q ''Appwrite env not configured'' ?Q ! 1 =
       (mkTx ''b'' ''u1'' 3)\<lparr>syncStatus := Failed,
          tx_error := Some ''Appwrite env not configured''\<rparr>"
    by (simp add: m retried_def mkTx_def MAX_RETRY_ATTEMPTS_def)
  have "syncUsers unconfigured [(''u1'', ?Q)] 0 0 retried =
      syncUsers unconfigured [] 0 (0 + length ?Q)
        ((tick retried)\<lparr>queue := requeueAfterError ?Q ''Appwrite env not configured'' ?Q\<rparr>)"
    using run [OF d] .
  then have e: "syncUsers unconfigured [(''u1'', ?Q)] 0 0 retried =
       ((0, 2),
        \<lparr>queue = [(mkTx ''a'' ''u1'' 2)\<lparr>tx_error := Some ''Appwrite env not configured''\<rparr>,
                  (mkTx ''b'' ''u1'' 3)\<lparr>syncStatus := Failed,
                     tx_error := Some ''Appwrite env not configured''\<rparr>],
         clock = 1, uploads = []\<rparr>)"
    by (simp add: requeueAfterError_def hasId_def isNetworkError_def MAX_RETRY_ATTEMPTS_def
        tick_def retried_def mkTx_def)
  from n h(2) a m b c e show ?thesis by blast
qed

section \<open>Properties of the delete run\<close>

lemma listDocuments_single: "length (listDocuments user batchSize st) \<le> 1"
  by (simp add: listDocuments_def batchSize_def)

lemma deleteLoop_pass:
  assumes "listDocuments user batchSize st = docId # rest"
    and "\<not> listFails env (listCalls st)"
  shows "rest = []"
    and "deleteLoop env user st =
      deleteLoop env user
        (afterBatch (deleteOne (deleteAnswer env) docId
           (st\<lparr>listCalls := listCalls st + 1, batchDeleted := 0\<rparr>)))"
proof -
  from listDocuments_single [of user st] assms(1) show rest: "rest = []" by simp
  show "deleteLoop env user st =
      deleteLoop env user
        (afterBatch (deleteOne (deleteAnswer env) docId
           (st\<lparr>listCalls := listCalls st + 1, batchDeleted := 0\<rparr>)))"
    by (subst deleteLoop.simps) (simp add: assms rest Let_def)
qed

lemma listDocuments_afterBatch [simp]:
  "listDocuments user limit (afterBatch st) = listDocuments user limit st"
  by (simp add: listDocuments_def afterBatch_def emit_def updateDeleteStatus_def)

lemma deleteOne_reliable:
  assumes "remote (deleteCalls st) docId = Deleted"
  shows "totalDeleted (deleteOne remote docId st) = totalDeleted st + 1"
    and "remoteDocuments (deleteOne remote docId st)
           = filter (\<lambda>d. fst d \<noteq> docId) (remoteDocuments st)"
    and "storedOperation (deleteOne remote docId st) = storedOperation st"
  using assms
  by (simp_all add: deleteOne_def deleteDocument_def emit_def countDeleted_def removes_def)

lemma afterBatch_fields [simp]:
  "totalDeleted (afterBatch st) = totalDeleted st"
  "remoteDocuments (afterBatch st) = remoteDocuments st"
  by (simp_all add: afterBatch_def emit_def updateDeleteStatus_def)

lemma filter_head_removed:
  assumes "distinct (map fst docs)" and "filter P docs = x # xs"
  shows "filter P (filter (\<lambda>d. fst d \<noteq> fst x) docs) = xs"
proof -
  have "filter P (filter (\<lambda>d. fst d \<noteq> fst x) docs)
      = filter (\<lambda>d. fst d \<noteq> fst x) (filter P docs)"
    by (simp add: conj_commute)
  also have "\<dots> = filter (\<lambda>d. fst d \<noteq> fst x) xs"
    using assms(2) by simp
  also have "\<dots> = xs"
  proof -
    from assms(1) have "distinct (map fst (filter P docs))"
      by (rule distinct_map_filter)
    with assms(2) have fresh: "fst x \<notin> fst ` set xs" by simp
    have "fst d \<noteq> fst x" if "d \<in> set xs" for d
      using that fresh by (metis imageI)
    then show ?thesis by (simp add: filter_id_conv)
  qed
  finally show ?thesis .
qed

text \<open>
  With a remote that deletes what it is asked to and a collection in which ids are
  unique, the loop ends: every document of the user is gone, \<^verbatim>\<open>totalDeleted\<close> has
  grown by their number, and the stored operation is removed.
\<close>

lemma deleteLoop_reliable:
  assumes "\<forall>k d. deleteAnswer env k d = Deleted" and "\<forall>n. \<not> listFails env n"
    and "distinct (map fst (remoteDocuments st))"
  shows "\<exists>final. deleteLoop env user st = Some final
       \<and> filter (\<lambda>d. snd d = user) (remoteDocuments final) = []
       \<and> totalDeleted final
           = totalDeleted st + length (filter (\<lambda>d. snd d = user) (remoteDocuments st))
       \<and> storedOperation final = None"
  using assms(3)
proof (induction "filter (\<lambda>d. snd d = user) (remoteDocuments st)" arbitrary: st)
  case Nil
  then have "listDocuments user batchSize st = []"
    by (simp add: listDocuments_def)
  then have "deleteLoop env user st = Some (deleteCompleted (st\<lparr>listCalls := listCalls st + 1\<rparr>))"
    using assms(2) by (subst deleteLoop.simps) simp
  with Nil(1) show ?case
    by (simp add: deleteCompleted_def emit_def)
next
  case (Cons x xs)
  let ?st1 = "st\<lparr>listCalls := listCalls st + 1, batchDeleted := 0\<rparr>"
  let ?st2 = "afterBatch (deleteOne (deleteAnswer env) (fst x) ?st1)"
  from Cons(2) have listed: "listDocuments user batchSize st = fst x # []"
    by (simp add: listDocuments_def batchSize_def flip: Cons(2))
  from assms(2) have ok: "\<not> listFails env (listCalls st)" by simp
  have answer: "deleteAnswer env (deleteCalls ?st1) (fst x) = Deleted"
    using assms(1) by simp
  note one = deleteOne_reliable
    [where remote = "deleteAnswer env" and st = ?st1 and docId = "fst x", OF answer]
  have docs: "remoteDocuments ?st2 = filter (\<lambda>d. fst d \<noteq> fst x) (remoteDocuments st)"
    using one(2) by simp
  have total: "totalDeleted ?st2 = totalDeleted st + 1"
    using one(1) by simp
  have rest: "xs = filter (\<lambda>d. snd d = user) (remoteDocuments ?st2)"
    unfolding docs using filter_head_removed [OF Cons(3) Cons(2) [symmetric]] by simp
  have dist: "distinct (map fst (remoteDocuments ?st2))"
    unfolding docs using Cons(3) by (rule distinct_map_filter)
  from Cons(1) [OF rest dist] obtain final where final:
    "deleteLoop env user ?st2 = Some final"
    "filter (\<lambda>d. snd d = user) (remoteDocuments final) = []"
    "totalDeleted final
       = totalDeleted ?st2 + length (filter (\<lambda>d. snd d = user) (remoteDocuments ?st2))"
    "storedOperation final = None"
    by blast
  have "deleteLoop env user st = deleteLoop env user ?st2"
    by (rule deleteLoop_pass(2) [OF listed ok])
  with final total rest Cons(2) [symmetric] show ?case
    by simp
qed

lemma deleteOne_failing:
  assumes "\<forall>k. remote k d = DeleteThrew e" and "\<not> isNotFound e"
  shows "remoteDocuments (deleteOne remote d st) = remoteDocuments st"
    and "totalDeleted (deleteOne remote d st) = totalDeleted st"
  using assms
  by (simp_all add: deleteOne_def deleteDocument_def emit_def removes_def isNotFound_def)

text \<open>
  A document whose deletion always fails, with an error that is not a not-found error,
  blocks the run: every pass lists it again, the run never ends and no document after
  it is reached.
\<close>

lemma deleteLoop_blocked:
  assumes fails: "\<forall>k. deleteAnswer env k d = DeleteThrew e" and other: "\<not> isNotFound e"
    and lists: "\<forall>n. \<not> listFails env n"
    and first: "listDocuments user batchSize st = [d]"
  shows "deleteLoop env user st = None"
proof -
  have "listDocuments user' batchSize st' \<noteq> [d] \<or> env' \<noteq> env"
    if returns: "deleteLoop env' user' st' = Some y" for env' user' st' y
  proof (rule deleteLoop.raw_induct
      [where P = "\<lambda>env' user' st' y. listDocuments user' batchSize st' \<noteq> [d] \<or> env' \<noteq> env",
       OF _ returns])
    fix loop env' user' st' y
    assume IH: "\<And>env' user' st' y. loop env' user' st' = Some y
        \<Longrightarrow> listDocuments user' batchSize st' \<noteq> [d] \<or> env' \<noteq> env"
      and step: "(if listFails env' (listCalls st')
          then Some (deleteFailed (st'\<lparr>listCalls := listCalls st' + 1\<rparr>))
          else let documents = listDocuments user' batchSize st';
                   st1 = st'\<lparr>listCalls := listCalls st' + 1\<rparr>
               in if length documents = 0 then Some (deleteCompleted st1)
                  else loop env' user'
                         (afterBatch (deleteBatch (deleteAnswer env') documents
                            (st1\<lparr>batchDeleted := 0\<rparr>)))) = Some y"
    show "listDocuments user' batchSize st' \<noteq> [d] \<or> env' \<noteq> env"
    proof (rule ccontr)
      assume "\<not> (listDocuments user' batchSize st' \<noteq> [d] \<or> env' \<noteq> env)"
      then have listed: "listDocuments user' batchSize st' = [d]" and env: "env' = env"
        by simp_all
      let ?next = "afterBatch (deleteOne (deleteAnswer env) d
                     (st'\<lparr>listCalls := listCalls st' + 1, batchDeleted := 0\<rparr>))"
      from step listed env lists have "loop env user' ?next = Some y"
        by (simp add: Let_def)
      from IH [OF this] have "listDocuments user' batchSize ?next \<noteq> [d]"
        by simp
      moreover have "listDocuments user' batchSize ?next = [d]"
        using listed
          deleteOne_failing(1) [where remote = "deleteAnswer env" and d = d and e = e,
            OF fails other]
        by (simp add: listDocuments_def)
      ultimately show False by simp
    qed
  qed
  with first show ?thesis
    by (cases "deleteLoop env user st") auto
qed




section \<open>Properties of the balance computation\<close>

lemma literal0_value: "literal0 = Dyadic 0 0"
  by (simp add: literal0_def fromInt_def roundToDouble_def dropBits_def finiteOrInfinity_def
      bitLength.simps trim.simps)

lemma orZero_literal0 [simp]: "orZero literal0 = literal0"
  by (simp add: orZero_def literal0_value)

lemma orZero_number: "orZero x \<noteq> NaN"
  by (cases x) (simp_all add: orZero_def literal0_value)

lemma amountOrZero_number: "\<not> isNaN (amountOrZero tx)"
  by (simp add: amountOrZero_def orZero_number isNaN_def literal0_value split: option.splits)

lemma firstPassStep_candidate:
  "firstPassStep env (hints, acc) row =
     (hintsAfter env hints row,
      case candidateOf env hints row of None \<Rightarrow> acc | Some c \<Rightarrow> keepLatest env acc c)"
  by (cases row)
    (auto simp: firstPassStep_def hintsAfter_def candidateOf_def Let_def
      split: prod.splits)

lemma firstPass_candidates:
  "foldl (firstPassStep env) (hints, acc) rows =
     (foldl (hintsAfter env) hints rows,
      foldl (keepLatest env) acc (candidatesFrom env hints rows))"
proof (induction rows arbitrary: hints acc)
  case Nil
  then show ?case by simp
next
  case (Cons row rows)
  show ?case
    by (simp add: firstPassStep_candidate Cons.IH split: option.splits)
qed

lemma laterThan_valid:
  assumes "timeOf env a \<noteq> None" and "timeOf env b \<noteq> None"
  shows "laterThan env (lastDateISO a) (lastDateISO b)
     \<longleftrightarrow> the (timeOf env b) < the (timeOf env a)"
  using assms by (auto simp: laterThan_def timeOf_def)

lemma keepLatest_other:
  assumes "accountKey (info c) \<noteq> k"
  shows "map_of (keepLatest env acc c) k = map_of acc k"
  using assms by (simp add: keepLatest_def update_conv' split: option.splits)

lemma keepLatest_same:
  "map_of (keepLatest env acc c) (accountKey (info c)) =
     (case map_of acc (accountKey (info c)) of
        None \<Rightarrow> Some c
      | Some x \<Rightarrow> if laterThan env (lastDateISO c) (lastDateISO x) then Some c else Some x)"
  by (simp add: keepLatest_def update_conv' split: option.splits)

lemma firstLatest_single: "firstLatest env [x] x"
  unfolding firstLatest_def by (intro exI [of _ "[]"]) simp

lemma firstLatest_replace:
  assumes fl: "firstLatest env (c # ks) e"
    and later: "laterThan env (lastDateISO c) (lastDateISO x)"
    and valid: "timeOf env x \<noteq> None" "timeOf env c \<noteq> None" "timeOf env e \<noteq> None"
  shows "firstLatest env (x # c # ks) e"
proof -
  from fl obtain pre post where split: "c # ks = pre @ e # post"
    and pre: "\<forall>y \<in> set pre. laterThan env (lastDateISO e) (lastDateISO y)"
    and post: "\<forall>y \<in> set post. \<not> laterThan env (lastDateISO y) (lastDateISO e)"
    unfolding firstLatest_def by blast
  have "e = c \<or> c \<in> set pre"
    using split by (cases pre) auto
  then have "laterThan env (lastDateISO e) (lastDateISO x)"
  proof
    assume "e = c"
    with later show ?thesis by simp
  next
    assume "c \<in> set pre"
    with pre have "laterThan env (lastDateISO e) (lastDateISO c)" by blast
    with later valid show ?thesis
      by (simp add: laterThan_valid)
  qed
  with pre have "\<forall>y \<in> set (x # pre). laterThan env (lastDateISO e) (lastDateISO y)"
    by simp
  moreover from split have "x # c # ks = (x # pre) @ e # post" by simp
  ultimately show ?thesis
    unfolding firstLatest_def using post by blast
qed

lemma firstLatest_keep:
  assumes fl: "firstLatest env (x # ks) e"
    and notLater: "\<not> laterThan env (lastDateISO c) (lastDateISO x)"
    and valid: "timeOf env x \<noteq> None" "timeOf env c \<noteq> None" "timeOf env e \<noteq> None"
  shows "firstLatest env (x # c # ks) e"
proof -
  from fl obtain pre post where split: "x # ks = pre @ e # post"
    and pre: "\<forall>y \<in> set pre. laterThan env (lastDateISO e) (lastDateISO y)"
    and post: "\<forall>y \<in> set post. \<not> laterThan env (lastDateISO y) (lastDateISO e)"
    unfolding firstLatest_def by blast
  show ?thesis
  proof (cases pre)
    case Nil
    with split have e: "e = x" and ks: "ks = post" by simp_all
    have "x # c # ks = [] @ e # (c # post)"
      using e ks by simp
    moreover have "\<forall>y \<in> set (c # post). \<not> laterThan env (lastDateISO y) (lastDateISO e)"
      using post notLater e by simp
    ultimately show ?thesis
      unfolding firstLatest_def by (metis empty_iff list.set(1))
  next
    case (Cons p pre')
    with split have p: "p = x" and ks: "ks = pre' @ e # post" by simp_all
    from pre Cons p have ex: "laterThan env (lastDateISO e) (lastDateISO x)" by simp
    with notLater valid have "laterThan env (lastDateISO e) (lastDateISO c)"
      by (simp add: laterThan_valid)
    with pre Cons p have "\<forall>y \<in> set (x # c # pre'). laterThan env (lastDateISO e) (lastDateISO y)"
      by simp
    moreover have "x # c # ks = (x # c # pre') @ e # post"
      using ks by simp
    ultimately show ?thesis
      unfolding firstLatest_def using post by blast
  qed
qed

lemma firstLatest_member: "firstLatest env cs e \<Longrightarrow> e \<in> set cs"
  unfolding firstLatest_def by auto

lemma fold_keepLatest_from:
  assumes "map_of acc k = Some x" and "timeOf env x \<noteq> None"
    and "\<forall>c \<in> set cs. accountKey (info c) = k \<longrightarrow> timeOf env c \<noteq> None"
  shows "\<exists>e. map_of (foldl (keepLatest env) acc cs) k = Some e
      \<and> firstLatest env (x # filter (\<lambda>c. accountKey (info c) = k) cs) e"
  using assms
proof (induction cs arbitrary: acc x)
  case Nil
  then show ?case by (simp add: firstLatest_single)
next
  case (Cons c cs)
  show ?case
  proof (cases "accountKey (info c) = k")
    case False
    then have "map_of (keepLatest env acc c) k = Some x"
      using Cons.prems(1) by (simp add: keepLatest_other)
    from Cons.IH [OF this Cons.prems(2)] Cons.prems(3) False show ?thesis by simp
  next
    case True
    let ?ks = "filter (\<lambda>c. accountKey (info c) = k) cs"
    from True Cons.prems(3) have vc: "timeOf env c \<noteq> None" by simp
    from Cons.prems(3) have rest: "\<forall>c \<in> set cs. accountKey (info c) = k \<longrightarrow> timeOf env c \<noteq> None"
      by simp
    show ?thesis
    proof (cases "laterThan env (lastDateISO c) (lastDateISO x)")
      case later: True
      have "map_of (keepLatest env acc c) k = Some c"
        using keepLatest_same [of env acc c] True Cons.prems(1) later by simp
      from Cons.IH [OF this vc rest] obtain e
        where e: "map_of (foldl (keepLatest env) (keepLatest env acc c) cs) k = Some e"
          and fl: "firstLatest env (c # ?ks) e"
        by blast
      from firstLatest_member [OF fl] vc rest have "timeOf env e \<noteq> None" by auto
      from firstLatest_replace [OF fl later Cons.prems(2) vc this] e True show ?thesis
        by simp
    next
      case notLater: False
      have "map_of (keepLatest env acc c) k = Some x"
        using keepLatest_same [of env acc c] True Cons.prems(1) notLater by simp
      from Cons.IH [OF this Cons.prems(2) rest] obtain e
        where e: "map_of (foldl (keepLatest env) (keepLatest env acc c) cs) k = Some e"
          and fl: "firstLatest env (x # ?ks) e"
        by blast
      from firstLatest_member [OF fl] Cons.prems(2) rest have "timeOf env e \<noteq> None" by auto
      from firstLatest_keep [OF fl notLater Cons.prems(2) vc this] e True show ?thesis
        by simp
    qed
  qed
qed

lemma fold_keepLatest_none:
  "map_of (foldl (keepLatest env) acc cs) k = None
     \<longleftrightarrow> map_of acc k = None \<and> (\<forall>c \<in> set cs. accountKey (info c) \<noteq> k)"
proof (induction cs arbitrary: acc)
  case Nil
  then show ?case by simp
next
  case (Cons c cs)
  show ?case
  proof (cases "accountKey (info c) = k")
    case True
    have "map_of (keepLatest env acc c) k \<noteq> None"
      using keepLatest_same [of env acc c] True by (simp split: option.splits if_splits)
    with Cons.IH True show ?thesis by auto
  next
    case False
    with Cons.IH show ?thesis by (simp add: keepLatest_other)
  qed
qed

lemma fold_keepLatest_fresh:
  assumes "map_of acc k = None"
    and "\<forall>c \<in> set cs. accountKey (info c) = k \<longrightarrow> timeOf env c \<noteq> None"
  shows "case map_of (foldl (keepLatest env) acc cs) k of
           None \<Rightarrow> \<forall>c \<in> set cs. accountKey (info c) \<noteq> k
         | Some e \<Rightarrow> firstLatest env (filter (\<lambda>c. accountKey (info c) = k) cs) e"
  using assms
proof (induction cs arbitrary: acc)
  case Nil
  then show ?case by simp
next
  case (Cons c cs)
  show ?case
  proof (cases "accountKey (info c) = k")
    case False
    with Cons.prems(1) have "map_of (keepLatest env acc c) k = None"
      by (simp add: keepLatest_other)
    from Cons.IH [OF this] Cons.prems(2) False show ?thesis
      by (simp split: option.splits)
  next
    case True
    with Cons.prems(2) have vc: "timeOf env c \<noteq> None" by simp
    from Cons.prems(2) have rest: "\<forall>c \<in> set cs. accountKey (info c) = k \<longrightarrow> timeOf env c \<noteq> None"
      by simp
    have "map_of (keepLatest env acc c) k = Some c"
      using keepLatest_same [of env acc c] True Cons.prems(1) by simp
    from fold_keepLatest_from [OF this vc rest] True show ?thesis
      by auto
  qed
qed

lemma secondPassStep_pending:
  "secondPassStep env hints adj tx =
     (case pendingFrom env hints [tx] of
        [] \<Rightarrow> adj
      | p # _ \<Rightarrow> AList.update (fst p)
                  (addPending (case map_of adj (fst p) of None \<Rightarrow> literal0 | Some c \<Rightarrow> c)
                     (snd p)) adj)"
  by (cases hints)
    (simp add: secondPassStep_def pendingFrom_def Let_def amountOrZero_number
      currentAdjustment_def addPending_def split: option.splits)

lemma pendingFrom_Cons:
  "pendingFrom env hints (tx # txs) = pendingFrom env hints [tx] @ pendingFrom env hints txs"
  by (simp add: pendingFrom_def)

lemma pendingFrom_single: "length (pendingFrom env hints [tx]) \<le> 1"
  by (simp add: pendingFrom_def)

lemma secondPass_sum:
  "map_of (foldl (secondPassStep env hints) adj txs) k =
     (case filter (\<lambda>p. fst p = k) (pendingFrom env hints txs) of
        [] \<Rightarrow> map_of adj k
      | ps \<Rightarrow> Some (foldl addPending (case map_of adj k of None \<Rightarrow> literal0 | Some v \<Rightarrow> v)
                     (map snd ps)))"
proof (induction txs arbitrary: adj)
  case Nil
  then show ?case by (simp add: pendingFrom_def)
next
  case (Cons tx txs)
  show ?case
  proof (cases "pendingFrom env hints [tx]")
    case Nil
    then have "secondPassStep env hints adj tx = adj"
      by (simp add: secondPassStep_pending)
    with Nil Cons.IH [of adj] show ?thesis
      by (simp add: pendingFrom_Cons [of env hints tx txs])
  next
    case (Cons p ps)
    with pendingFrom_single [of env hints tx] have single: "pendingFrom env hints [tx] = [p]"
      by simp
    let ?adj' = "AList.update (fst p)
                  (addPending (case map_of adj (fst p) of None \<Rightarrow> literal0 | Some c \<Rightarrow> c)
                     (snd p)) adj"
    have step: "secondPassStep env hints adj tx = ?adj'"
      using single by (simp add: secondPassStep_pending)
    show ?thesis
    proof (cases "fst p = k")
      case True
      with Cons.IH [of ?adj'] step single show ?thesis
        by (simp add: pendingFrom_Cons [of env hints tx txs] update_conv'
            split: list.splits)
    next
      case False
      with Cons.IH [of ?adj'] step single show ?thesis
        by (simp add: pendingFrom_Cons [of env hints tx txs] update_conv'
            split: list.splits)
    qed
  qed
qed

lemma secondPass_distinct:
  assumes "distinct (map fst adj)"
  shows "distinct (map fst (foldl (secondPassStep env hints) adj txs))"
  using assms
proof (induction txs arbitrary: adj)
  case Nil
  then show ?case by simp
next
  case (Cons tx txs)
  have "distinct (map fst (secondPassStep env hints adj tx))"
    using Cons.prems
    by (simp add: secondPassStep_pending distinct_update split: list.splits)
  from Cons.IH [OF this] show ?case by simp
qed

lemma applyAdjustment_lookup:
  "map_of (applyAdjustment acc (k', a)) k =
     map_option (adjusted (if k = k' then Some a else None)) (map_of acc k)"
  by (cases "map_of acc k'"; cases "map_of acc k")
    (auto simp: applyAdjustment_def adjusted_def update_conv')

lemma applyAdjustments_lookup:
  assumes "distinct (map fst adj)"
  shows "map_of (foldl applyAdjustment acc adj) k =
     map_option (adjusted (map_of adj k)) (map_of acc k)"
  using assms
proof (induction adj arbitrary: acc)
  case Nil
  then show ?case by (cases "map_of acc k") (simp_all add: adjusted_def)
next
  case (Cons p adj)
  obtain k' a where p: "p = (k', a)" by (cases p)
  from Cons.prems have dist: "distinct (map fst adj)" by simp
  have step: "map_of (foldl applyAdjustment acc (p # adj)) k =
      map_option (adjusted (map_of adj k))
        (map_option (adjusted (if k = k' then Some a else None)) (map_of acc k))"
    using Cons.IH [OF dist, of "applyAdjustment acc (k', a)"] p
    by (simp add: applyAdjustment_lookup)
  show ?case
  proof (cases "k = k'")
    case True
    with Cons.prems p have "map_of adj k = None"
      by (simp add: map_of_eq_None_iff)
    with True p step show ?thesis
      by (cases "map_of acc k") (simp_all add: adjusted_def)
  next
    case False
    with p step show ?thesis
      by (cases "map_of acc k") (simp_all add: adjusted_def)
  qed
qed

lemma computeBalances_lookup:
  "map_of (computeBalances env txs) k =
     map_option (adjusted (pendingSum env txs k))
       (map_of (foldl (keepLatest env) [] (balanceCandidates env txs)) k)"
proof -
  let ?h0 = "foldl (hintStep env) (Map.empty, Map.empty) txs"
  let ?rows = "zip [0..<length txs] txs"
  let ?adj = "foldl (secondPassStep env (finalHints env txs)) [] txs"
  have first: "foldl (firstPassStep env) (?h0, []) ?rows =
      (finalHints env txs, foldl (keepLatest env) [] (balanceCandidates env txs))"
    by (simp add: firstPass_candidates finalHints_def balanceCandidates_def)
  have run: "computeBalances env txs =
      foldl applyAdjustment (foldl (keepLatest env) [] (balanceCandidates env txs)) ?adj"
    by (simp add: computeBalances_def first)
  have dist: "distinct (map fst ?adj)"
    by (rule secondPass_distinct) simp
  have "map_of ?adj k = pendingSum env txs k"
    by (simp add: secondPass_sum pendingSum_def pendingAmounts_def split: list.splits)
  with applyAdjustments_lookup [OF dist] show ?thesis
    by (simp add: run)
qed

lemma firstLatest_times:
  assumes "firstLatest env cs c" and "\<forall>y \<in> set cs. timeOf env y \<noteq> None"
  shows "\<exists>pre post tc. cs = pre @ c # post \<and> timeOf env c = Some tc
      \<and> (\<forall>y \<in> set pre. \<exists>ty. timeOf env y = Some ty \<and> ty < tc)
      \<and> (\<forall>y \<in> set post. \<exists>ty. timeOf env y = Some ty \<and> ty \<le> tc)"
proof -
  from assms(1) obtain pre post where split: "cs = pre @ c # post"
    and pre: "\<forall>y \<in> set pre. laterThan env (lastDateISO c) (lastDateISO y)"
    and post: "\<forall>y \<in> set post. \<not> laterThan env (lastDateISO y) (lastDateISO c)"
    unfolding firstLatest_def by blast
  from split assms(2) obtain tc where tc: "timeOf env c = Some tc" by auto
  have "\<exists>ty. timeOf env y = Some ty \<and> ty < tc" if "y \<in> set pre" for y
  proof -
    from that split assms(2) obtain ty where "timeOf env y = Some ty" by auto
    moreover from that pre have "laterThan env (lastDateISO c) (lastDateISO y)" by blast
    ultimately show ?thesis using tc by (simp add: laterThan_def timeOf_def)
  qed
  moreover have "\<exists>ty. timeOf env y = Some ty \<and> ty \<le> tc" if "y \<in> set post" for y
  proof -
    from that split assms(2) obtain ty where "timeOf env y = Some ty" by auto
    moreover from that post have "\<not> laterThan env (lastDateISO y) (lastDateISO c)" by blast
    ultimately show ?thesis using tc by (simp add: laterThan_def timeOf_def)
  qed
  ultimately show ?thesis using split tc by blast
qed

text \<open>
  What the two passes compute for an account key. Take the balance candidates of the
  batch that resolve to the key, in input order, and suppose their dates parse. If there
  is none, the account has no final balance. Otherwise the final balance is the balance
  in cents of the chronologically latest candidate, the first one in input order among
  equally late ones, with the adjustment of the account added when a pending row
  resolves to it. A candidate is a row with a parseable balance whose state is COMPLETED
  or missing.
\<close>

lemma computeBalances_latest_candidate:
  assumes "\<forall>c \<in> set (balanceCandidates env txs).
             accountKey (info c) = key \<longrightarrow> timeOf env c \<noteq> None"
  shows "case map_of (computeBalances env txs) key of
           None \<Rightarrow> \<forall>c \<in> set (balanceCandidates env txs). accountKey (info c) \<noteq> key
         | Some e \<Rightarrow>
             \<exists>pre c post tc.
               filter (\<lambda>c. accountKey (info c) = key) (balanceCandidates env txs)
                 = pre @ c # post
             \<and> timeOf env c = Some tc
             \<and> (\<forall>y \<in> set pre. \<exists>ty. timeOf env y = Some ty \<and> ty < tc)
             \<and> (\<forall>y \<in> set post. \<exists>ty. timeOf env y = Some ty \<and> ty \<le> tc)
             \<and> e = adjusted (pendingSum env txs key) c"
proof (cases "map_of (foldl (keepLatest env) [] (balanceCandidates env txs)) key")
  case None
  with fold_keepLatest_fresh [where acc = "[]" and k = key and env = env
      and cs = "balanceCandidates env txs"] assms
  show ?thesis
    by (simp add: computeBalances_lookup)
next
  case (Some c)
  let ?ks = "filter (\<lambda>c. accountKey (info c) = key) (balanceCandidates env txs)"
  from Some fold_keepLatest_fresh [where acc = "[]" and k = key and env = env
      and cs = "balanceCandidates env txs"] assms
  have "firstLatest env ?ks c" by simp
  moreover from assms have "\<forall>y \<in> set ?ks. timeOf env y \<noteq> None" by simp
  ultimately obtain pre post tc where "?ks = pre @ c # post" "timeOf env c = Some tc"
    "\<forall>y \<in> set pre. \<exists>ty. timeOf env y = Some ty \<and> ty < tc"
    "\<forall>y \<in> set post. \<exists>ty. timeOf env y = Some ty \<and> ty \<le> tc"
    using firstLatest_times by blast
  with Some show ?thesis
    by (simp add: computeBalances_lookup) blast
qed

lemma candidate_state:
  assumes "candidateOf env hints (i, tx) = Some c"
  shows "truthy (csv_balance tx) \<and> \<not> isNaN (parseFloat env (the (csv_balance tx)))
     \<and> (\<not> truthy (state tx) \<or> toUpperCase (the (state tx)) = ''COMPLETED'')"
  using assms
  by (auto simp: candidateOf_def firstPassSkips_def split: prod.splits if_splits)

text \<open>
  The conversion to cents is done on doubles: \<^verbatim>\<open>0.145\<close> parses to a double below
  0.145, its product with 100 rounds to a double below 14.5, and \<^verbatim>\<open>Math.round\<close> gives
  14. A sum of whole numbers of cents is exact up to \<open>2 ^ 53\<close> and rounded beyond.
\<close>

lemma cents_of_third_decimal:
  "jsTimes (parseFloat sampleImport ''0.145'') literal100 = Dyadic 8162774324609023 (- 49)
   \<and> mathRound (jsTimes (parseFloat sampleImport ''0.145'') literal100) = fromInt 14"
  by (simp add: sampleImport_def literal100_def fromInt_def roundToDouble_def dropBits_def
      roundHalfEven_def finiteOrInfinity_def bitLength.simps trim.simps)

lemma cents_sum_beyond_53_bits:
  "jsPlus (fromInt 9000) (fromInt (- 2000)) = fromInt 7000
   \<and> jsPlus (fromInt 9007199254740992) (fromInt 1) = fromInt 9007199254740992"
  by (simp add: fromInt_def roundToDouble_def dropBits_def roundHalfEven_def
      finiteOrInfinity_def bitLength.simps trim.simps)

text \<open>
  Claim C1, on two batches. In the scenario of the claim, three COMPLETED rows with the
  balances 100, 150 and 90 at increasing times and a PENDING row of -20, the final
  balance is 7000 cents. In the second batch the only COMPLETED row has the balance 100
  and no row is PENDING, so that the claim gives 10000 cents; a later row with the
  balance 50 has no state (or an empty one). The first pass tests
  \<^verbatim>\<open>transaction.state && ...\<close> where the two other loops test
  \<^verbatim>\<open>!transaction.state || ...\<close>, so it takes that row for a completed one, and the
  final balance is 5000 cents.
\<close>

theorem computeBalances_keeps_stateless_row:
  "balancesOf (computeBalances sampleImport scenarioBatch)
     = [(''revolut-current-EUR'', fromInt 7000)]
   \<and> map state (statelessBatch None) = [Some ''COMPLETED'', None]
   \<and> map csv_balance (statelessBatch None) = [Some ''100'', Some ''50'']
   \<and> balancesOf (computeBalances sampleImport (statelessBatch None))
       = [(''revolut-current-EUR'', fromInt 5000)]
   \<and> balancesOf (computeBalances sampleImport (statelessBatch (Some [])))
       = [(''revolut-current-EUR'', fromInt 5000)]"
proof -
  have scenario: "balancesOf (computeBalances sampleImport scenarioBatch)
      = [(''revolut-current-EUR'', fromInt 7000)]"
    by (simp add: computeBalances_def firstPassStep_def firstPassSkips_def firstPassHints_def
        hintStep_def secondPassStep_def applyAdjustment_def keepLatest_def laterThan_def
        txnDateISO_def resolveRow_def stateIsNot_def productLower_def currencyOf_def
        truthy_def toUpperCase_def toLowerCase_def upperChar_def lowerChar_def
        amountOrZero_def currentAdjustment_def orZero_def isNaN_def literal0_def
        literal100_def fromInt_def roundToDouble_def dropBits_def roundHalfEven_def
        finiteOrInfinity_def bitLength.simps trim.simps balancesOf_def savedBalances_def
        sampleImport_def csvRow_def upt_rec scenarioBatch_def)
  have rows: "map state (statelessBatch None) = [Some ''COMPLETED'', None]"
    "map csv_balance (statelessBatch None) = [Some ''100'', Some ''50'']"
    by (simp_all add: statelessBatch_def csvRow_def)
  have absent: "balancesOf (computeBalances sampleImport (statelessBatch None))
      = [(''revolut-current-EUR'', fromInt 5000)]"
    by (simp add: computeBalances_def firstPassStep_def firstPassSkips_def firstPassHints_def
        hintStep_def secondPassStep_def applyAdjustment_def keepLatest_def laterThan_def
        txnDateISO_def resolveRow_def stateIsNot_def productLower_def currencyOf_def
        truthy_def toUpperCase_def toLowerCase_def upperChar_def lowerChar_def
        amountOrZero_def currentAdjustment_def orZero_def isNaN_def literal0_def
        literal100_def fromInt_def roundToDouble_def dropBits_def roundHalfEven_def
        finiteOrInfinity_def bitLength.simps trim.simps balancesOf_def savedBalances_def
        sampleImport_def csvRow_def upt_rec statelessBatch_def)
  have empty: "balancesOf (computeBalances sampleImport (statelessBatch (Some [])))
      = [(''revolut-current-EUR'', fromInt 5000)]"
    by (simp add: computeBalances_def firstPassStep_def firstPassSkips_def firstPassHints_def
        hintStep_def secondPassStep_def applyAdjustment_def keepLatest_def laterThan_def
        txnDateISO_def resolveRow_def stateIsNot_def productLower_def currencyOf_def
        truthy_def toUpperCase_def toLowerCase_def upperChar_def lowerChar_def
        amountOrZero_def currentAdjustment_def orZero_def isNaN_def literal0_def
        literal100_def fromInt_def roundToDouble_def dropBits_def roundHalfEven_def
        finiteOrInfinity_def bitLength.simps trim.simps balancesOf_def savedBalances_def
        sampleImport_def csvRow_def upt_rec statelessBatch_def)
  from scenario rows absent empty show ?thesis
    by (intro conjI)
qed

lemma update_set: "set (AList.update k v al) \<subseteq> insert (k, v) (set al)"
  by (induction al) auto

lemma keyed_update:
  assumes "keyed l" and "accountKey (info e) = k"
  shows "keyed (AList.update k e l)"
  using assms update_set [of k e l] unfolding keyed_def by fastforce

lemma keyed_keepLatest: "keyed l \<Longrightarrow> keyed (keepLatest env l c)"
  by (simp add: keepLatest_def keyed_update split: option.splits)

lemma keyed_candidates: "keyed l \<Longrightarrow> keyed (foldl (keepLatest env) l cs)"
  by (induction cs arbitrary: l) (simp_all add: keyed_keepLatest)

lemma keyed_applyAdjustment:
  assumes "keyed l"
  shows "keyed (applyAdjustment l adj)"
proof (cases adj)
  case (Pair k a)
  show ?thesis
  proof (cases "map_of l k")
    case None
    with Pair assms show ?thesis by (simp add: applyAdjustment_def)
  next
    case (Some e)
    then have "(k, e) \<in> set l" by (rule map_of_SomeD)
    with assms have "accountKey (info e) = k" unfolding keyed_def by force
    with Pair Some assms show ?thesis
      by (simp add: applyAdjustment_def keyed_update)
  qed
qed

lemma keyed_adjustments: "keyed l \<Longrightarrow> keyed (foldl applyAdjustment l adj)"
  by (induction adj arbitrary: l) (simp_all add: keyed_applyAdjustment)

lemma keyed_computeBalances: "keyed (computeBalances env txs)"
proof -
  have "keyed []" by (simp add: keyed_def)
  then show ?thesis
    by (simp add: computeBalances_def Let_def firstPass_candidates keyed_candidates
        keyed_adjustments)
qed

text \<open>
  An account key has a final balance exactly when some balance candidate resolves to
  it: the adjustment of an account is added to an existing entry and never creates one.
  A PENDING row, a row without balance field and a row whose balance does not parse are
  no candidates; a row without state is one.
\<close>

lemma entry_iff_candidate:
  "(map_of (computeBalances env txs) key \<noteq> None
      \<longleftrightarrow> (\<exists>c \<in> set (balanceCandidates env txs). accountKey (info c) = key))
   \<and> ((\<forall>c \<in> set (balanceCandidates env txs). accountKey (info c) \<noteq> key)
        \<longrightarrow> map_of (computeBalances env txs) key = None
          \<and> (\<forall>e \<in> set (savedBalances env txs). accountKey (info e) \<noteq> key))
   \<and> (\<not> stateIsNot tx ''PENDING'' \<or> \<not> truthy (csv_balance tx)
        \<or> isNaN (parseFloat env (the (csv_balance tx)))
        \<longrightarrow> candidateOf env hints (i, tx) = None)"
proof (intro conjI impI ballI)
  show entry: "map_of (computeBalances env txs) key \<noteq> None
      \<longleftrightarrow> (\<exists>c \<in> set (balanceCandidates env txs). accountKey (info c) = key)" for key
    using fold_keepLatest_none [of env "[]" "balanceCandidates env txs" key]
    by (simp add: computeBalances_lookup)
  {
    assume none: "\<forall>c \<in> set (balanceCandidates env txs). accountKey (info c) \<noteq> key"
    with entry [of key] show "map_of (computeBalances env txs) key = None" by blast
    fix e assume "e \<in> set (savedBalances env txs)"
    then obtain k where in_map: "(k, e) \<in> set (computeBalances env txs)"
      by (auto simp: savedBalances_def)
    with keyed_computeBalances [of env txs] have k: "accountKey (info e) = k"
      unfolding keyed_def by force
    from in_map have "map_of (computeBalances env txs) k \<noteq> None"
      by (metis fst_conv image_eqI map_of_eq_None_iff)
    with entry [of k] obtain c where "c \<in> set (balanceCandidates env txs)"
      "accountKey (info c) = k" by blast
    with none k show "accountKey (info e) \<noteq> key" by blast
  }
  assume "\<not> stateIsNot tx ''PENDING'' \<or> \<not> truthy (csv_balance tx)
        \<or> isNaN (parseFloat env (the (csv_balance tx)))"
  then show "candidateOf env hints (i, tx) = None"
    by (auto simp: candidateOf_def firstPassSkips_def stateIsNot_def split: prod.splits)
qed

text \<open>
  Claim C10, on two batches. In the first, the EUR account has a row without state that
  carries the balance 50 and a PENDING row of -20, and no COMPLETED row: the claim gives
  it no balance entry. The first pass takes the row without state for a completed one
  (the test that differs from the two other loops), so the account gets the entry 5000,
  the adjustment is applied to it, and 3000 cents are saved. In the second batch the
  GBP account has only a PENDING row: it gets no entry and nothing is saved for it, as
  the claim says; only the EUR balance of the COMPLETED row is.
\<close>

theorem pending_adjustment_on_stateless_balance:
  "map state statelessPendingBatch = [None, Some ''PENDING'']
   \<and> balancesOf (computeBalances sampleImport statelessPendingBatch)
       = [(''revolut-current-EUR'', fromInt 3000)]
   \<and> map entryBalance (savedBalances sampleImport statelessPendingBatch) = [fromInt 3000]
   \<and> map currency pendingOnlyBatch = [Some ''EUR'', Some ''GBP'']
   \<and> map state pendingOnlyBatch = [Some ''COMPLETED'', Some ''PENDING'']
   \<and> balancesOf (computeBalances sampleImport pendingOnlyBatch)
       = [(''revolut-current-EUR'', fromInt 10000)]"
proof -
  have rows: "map state statelessPendingBatch = [None, Some ''PENDING'']"
    "map currency pendingOnlyBatch = [Some ''EUR'', Some ''GBP'']"
    "map state pendingOnlyBatch = [Some ''COMPLETED'', Some ''PENDING'']"
    by (simp_all add: statelessPendingBatch_def pendingOnlyBatch_def csvRow_def)
  have entry: "balancesOf (computeBalances sampleImport statelessPendingBatch)
      = [(''revolut-current-EUR'', fromInt 3000)]"
    by (simp add: computeBalances_def firstPassStep_def firstPassSkips_def firstPassHints_def
        hintStep_def secondPassStep_def applyAdjustment_def keepLatest_def laterThan_def
        txnDateISO_def resolveRow_def stateIsNot_def productLower_def currencyOf_def
        truthy_def toUpperCase_def toLowerCase_def upperChar_def lowerChar_def
        amountOrZero_def currentAdjustment_def orZero_def isNaN_def literal0_def
        literal100_def fromInt_def roundToDouble_def dropBits_def roundHalfEven_def
        finiteOrInfinity_def bitLength.simps trim.simps balancesOf_def savedBalances_def
        sampleImport_def csvRow_def upt_rec statelessPendingBatch_def)
  have saved: "map entryBalance (savedBalances sampleImport statelessPendingBatch)
      = [fromInt 3000]"
    by (simp add: computeBalances_def firstPassStep_def firstPassSkips_def firstPassHints_def
        hintStep_def secondPassStep_def applyAdjustment_def keepLatest_def laterThan_def
        txnDateISO_def resolveRow_def stateIsNot_def productLower_def currencyOf_def
        truthy_def toUpperCase_def toLowerCase_def upperChar_def lowerChar_def
        amountOrZero_def currentAdjustment_def orZero_def isNaN_def literal0_def
        literal100_def fromInt_def roundToDouble_def dropBits_def roundHalfEven_def
        finiteOrInfinity_def bitLength.simps trim.simps balancesOf_def savedBalances_def
        sampleImport_def csvRow_def upt_rec statelessPendingBatch_def)
  have pending: "balancesOf (computeBalances sampleImport pendingOnlyBatch)
      = [(''revolut-current-EUR'', fromInt 10000)]"
    by (simp add: computeBalances_def firstPassStep_def firstPassSkips_def firstPassHints_def
        hintStep_def secondPassStep_def applyAdjustment_def keepLatest_def laterThan_def
        txnDateISO_def resolveRow_def stateIsNot_def productLower_def currencyOf_def
        truthy_def toUpperCase_def toLowerCase_def upperChar_def lowerChar_def
        amountOrZero_def currentAdjustment_def orZero_def isNaN_def literal0_def
        literal100_def fromInt_def roundToDouble_def dropBits_def roundHalfEven_def
        finiteOrInfinity_def bitLength.simps trim.simps balancesOf_def savedBalances_def
        sampleImport_def csvRow_def upt_rec pendingOnlyBatch_def)
  from rows entry saved pending show ?thesis
    by (intro conjI)
qed

section \<open>Properties of the transfer matcher\<close>

lemma bestCandidate_Some:
  assumes "bestCandidate xs i rest = Some j"
  shows "j \<in> set rest \<and> transferPair (xs ! i) (xs ! j)"
proof -
  let ?cs = "filter (\<lambda>j. transferPair (xs ! i) (xs ! j)) rest"
  from assms have ne: "?cs \<noteq> []" and j: "j = arg_min_list (timeDelta xs i) ?cs"
    by (auto simp: bestCandidate_def Let_def split: if_splits)
  from arg_min_list_in [OF ne] j have "j \<in> set ?cs" by simp
  then show ?thesis by simp
qed

lemma pairUp_indices:
  assumes "distinct idxs"
  shows "distinct (pairedIndices (pairUp xs idxs))
       \<and> set (pairedIndices (pairUp xs idxs)) \<subseteq> set idxs
       \<and> (\<forall>p \<in> set (pairUp xs idxs). transferPair (xs ! fst p) (xs ! snd p))"
  using assms
proof (induction xs idxs rule: pairUp.induct)
  case (1 xs)
  then show ?case by (simp add: pairedIndices_def)
next
  case (2 xs i rest)
  show ?case
  proof (cases "bestCandidate xs i rest")
    case None
    with 2 show ?thesis by auto
  next
    case (Some j)
    from bestCandidate_Some [OF Some] have j: "j \<in> set rest"
      and tp: "transferPair (xs ! i) (xs ! j)" by simp_all
    from "2.prems" have d: "distinct (remove1 j rest)" and i: "i \<notin> set rest" by simp_all
    from "2.IH"(2) [OF Some d]
    have ih: "distinct (pairedIndices (pairUp xs (remove1 j rest)))"
      "set (pairedIndices (pairUp xs (remove1 j rest))) \<subseteq> set (remove1 j rest)"
      "\<forall>p \<in> set (pairUp xs (remove1 j rest)). transferPair (xs ! fst p) (xs ! snd p)"
      by simp_all
    from "2.prems" have rm: "set (remove1 j rest) = set rest - {j}" by simp
    have unfold: "pairedIndices (pairUp xs (i # rest))
        = i # j # pairedIndices (pairUp xs (remove1 j rest))"
      using Some by (simp add: pairedIndices_def)
    from ih(2) rm i j have "i \<notin> set (pairedIndices (pairUp xs (remove1 j rest)))"
      "j \<notin> set (pairedIndices (pairUp xs (remove1 j rest)))" "i \<noteq> j"
      by auto
    with ih(1) have "distinct (pairedIndices (pairUp xs (i # rest)))"
      unfolding unfold by simp
    moreover from ih(2) rm j have "set (pairedIndices (pairUp xs (i # rest))) \<subseteq> set (i # rest)"
      unfolding unfold by auto
    moreover from ih(3) tp Some
    have "\<forall>p \<in> set (pairUp xs (i # rest)). transferPair (xs ! fst p) (xs ! snd p)"
      by simp
    ultimately show ?thesis by blast
  qed
qed

lemma partner_None: "partner ps k = None \<longleftrightarrow> k \<notin> set (pairedIndices ps)"
  by (induction ps k rule: partner.induct) (auto simp: pairedIndices_def)

lemma partner_bound:
  assumes "partner ps k = Some j"
  shows "j \<in> set (pairedIndices ps) \<and> ((k, j) \<in> set ps \<or> (j, k) \<in> set ps)"
  using assms
  by (induction ps k rule: partner.induct) (auto simp: pairedIndices_def split: if_splits)

lemma partner_symmetric:
  assumes "distinct (pairedIndices ps)" and "partner ps k = Some j"
  shows "partner ps j = Some k \<and> j \<noteq> k"
  using assms
proof (induction ps k rule: partner.induct)
  case (1 k)
  then show ?case by simp
next
  case (2 a b ps k)
  from "2.prems"(1) have ab: "a \<noteq> b" and fresh: "a \<notin> set (pairedIndices ps)"
    "b \<notin> set (pairedIndices ps)" and d: "distinct (pairedIndices ps)"
    by (auto simp: pairedIndices_def)
  show ?case
  proof (cases "k = a \<or> k = b")
    case True
    with "2.prems"(2) ab show ?thesis by (auto split: if_splits)
  next
    case False
    with "2.prems"(2) have p: "partner ps k = Some j" by simp
    from partner_bound [OF p] fresh have "j \<noteq> a" "j \<noteq> b" by auto
    with "2.IH" False d p show ?thesis by simp
  qed
qed

lemma linkPairs_lookup:
  assumes "distinct (pairedIndices ps)" and "\<forall>k \<in> set (pairedIndices ps). k < length ys"
  shows "length (foldl (linkPair xs) ys ps) = length ys
       \<and> (\<forall>k < length ys. foldl (linkPair xs) ys ps ! k =
            (case partner ps k of None \<Rightarrow> ys ! k | Some j \<Rightarrow> linkTo (ct_id (xs ! j)) (ys ! k)))"
  using assms
proof (induction ps arbitrary: ys)
  case Nil
  then show ?case by simp
next
  case (Cons p ps)
  obtain a b where p: "p = (a, b)" by (cases p)
  let ?ys = "linkPair xs ys (a, b)"
  from Cons.prems(1) p have ab: "a \<noteq> b" and fresh: "a \<notin> set (pairedIndices ps)"
    "b \<notin> set (pairedIndices ps)" and d: "distinct (pairedIndices ps)"
    by (auto simp: pairedIndices_def)
  from Cons.prems(2) p have bound: "a < length ys" "b < length ys"
    "\<forall>k \<in> set (pairedIndices ps). k < length ys"
    by (auto simp: pairedIndices_def)
  have len: "length ?ys = length ys" by (simp add: linkPair_def)
  from Cons.IH [of ?ys] d bound(3) len
  have ih: "length (foldl (linkPair xs) ?ys ps) = length ys"
    "\<forall>k < length ys. foldl (linkPair xs) ?ys ps ! k =
        (case partner ps k of None \<Rightarrow> ?ys ! k | Some j \<Rightarrow> linkTo (ct_id (xs ! j)) (?ys ! k))"
    by simp_all
  have "foldl (linkPair xs) ys (p # ps) ! k =
        (case partner (p # ps) k of None \<Rightarrow> ys ! k | Some j \<Rightarrow> linkTo (ct_id (xs ! j)) (ys ! k))"
    if k: "k < length ys" for k
  proof -
    from ih(2) k have step: "foldl (linkPair xs) ys (p # ps) ! k =
        (case partner ps k of None \<Rightarrow> ?ys ! k | Some j \<Rightarrow> linkTo (ct_id (xs ! j)) (?ys ! k))"
      by (simp add: p)
    show ?thesis
    proof (cases "k = a \<or> k = b")
      case True
      with fresh have "partner ps k = None" by (auto simp: partner_None)
      with step True ab bound show ?thesis
        by (auto simp: p linkPair_def)
    next
      case False
      then have "?ys ! k = ys ! k" by (simp add: linkPair_def)
      with step False show ?thesis by (simp add: p split: option.splits)
    qed
  qed
  with ih(1) show ?case by (simp add: p)
qed

text \<open>
  Claim C7. The matcher returns as many transactions as it was given. Each of them is
  either returned as it was, or it is one of a pair: it carries the id of its partner as
  \<open>matchedTransferId\<close> and both analytics flags, and so does the partner with its own id;
  the two are a debit and a credit of the same absolute amount in different accounts.
  Nothing else of a matched transaction changes.
\<close>

theorem markTransfers_symmetric:
  "length (markTransfers xs) = length xs
   \<and> (\<forall>i < length xs.
        markTransfers xs ! i = xs ! i
      \<or> (\<exists>j < length xs. j \<noteq> i
            \<and> (transferPair (xs ! i) (xs ! j) \<or> transferPair (xs ! j) (xs ! i))
            \<and> markTransfers xs ! i =
                (xs ! i)\<lparr>matchedTransferId := Some (ct_id (xs ! j)),
                         excludeFromAnalytics := True, isAnalyticsProtected := True\<rparr>
            \<and> markTransfers xs ! j =
                (xs ! j)\<lparr>matchedTransferId := Some (ct_id (xs ! i)),
                         excludeFromAnalytics := True, isAnalyticsProtected := True\<rparr>))"
proof -
  let ?ps = "pairUp xs [0..<length xs]"
  from pairUp_indices [of "[0..<length xs]" xs]
  have d: "distinct (pairedIndices ?ps)"
    and sub: "set (pairedIndices ?ps) \<subseteq> set [0..<length xs]"
    and tp: "\<forall>p \<in> set ?ps. transferPair (xs ! fst p) (xs ! snd p)"
    by simp_all
  from sub have bound: "\<forall>k \<in> set (pairedIndices ?ps). k < length xs" by auto
  from linkPairs_lookup [OF d bound, of xs]
  have len: "length (markTransfers xs) = length xs"
    and look: "\<forall>k < length xs. markTransfers xs ! k =
        (case partner ?ps k of None \<Rightarrow> xs ! k | Some j \<Rightarrow> linkTo (ct_id (xs ! j)) (xs ! k))"
    by (simp_all add: markTransfers_def)
  have "markTransfers xs ! i = xs ! i
      \<or> (\<exists>j < length xs. j \<noteq> i
            \<and> (transferPair (xs ! i) (xs ! j) \<or> transferPair (xs ! j) (xs ! i))
            \<and> markTransfers xs ! i = linkTo (ct_id (xs ! j)) (xs ! i)
            \<and> markTransfers xs ! j = linkTo (ct_id (xs ! i)) (xs ! j))"
    if i: "i < length xs" for i
  proof (cases "partner ?ps i")
    case None
    with look i show ?thesis by simp
  next
    case (Some j)
    from partner_symmetric [OF d Some] have mutual: "partner ?ps j = Some i" and ne: "j \<noteq> i"
      by simp_all
    from partner_bound [OF Some] bound have j: "j < length xs"
      and pair: "(i, j) \<in> set ?ps \<or> (j, i) \<in> set ?ps" by auto
    from pair tp have "transferPair (xs ! i) (xs ! j) \<or> transferPair (xs ! j) (xs ! i)"
      by auto
    moreover from look i Some have "markTransfers xs ! i = linkTo (ct_id (xs ! j)) (xs ! i)"
      by simp
    moreover from look j mutual have "markTransfers xs ! j = linkTo (ct_id (xs ! i)) (xs ! j)"
      by simp
    ultimately show ?thesis using j ne by blast
  qed
  with len show ?thesis
    unfolding linkTo_def by blast
qed

theorem markTransfers_symmetric_witness:
  "0 < length transferBatch
   \<and> markTransfers transferBatch =
      [(transferBatch ! 0)\<lparr>matchedTransferId := Some ''t2'', excludeFromAnalytics := True,
                           isAnalyticsProtected := True\<rparr>,
       (transferBatch ! 1)\<lparr>matchedTransferId := Some ''t1'', excludeFromAnalytics := True,
                           isAnalyticsProtected := True\<rparr>,
       transferBatch ! 2]
   \<and> map ct_id transferBatch = [''t1'', ''t2'', ''t3'']
   \<and> markTransfers transferBatch ! 0 \<noteq> transferBatch ! 0"
proof -
  have v: "markTransfers transferBatch =
     [(transferBatch ! 0)\<lparr>matchedTransferId := Some ''t2'', excludeFromAnalytics := True,
                          isAnalyticsProtected := True\<rparr>,
      (transferBatch ! 1)\<lparr>matchedTransferId := Some ''t1'', excludeFromAnalytics := True,
                          isAnalyticsProtected := True\<rparr>,
      transferBatch ! 2]"
    by (simp add: markTransfers_def transferBatch_def bestCandidate_def transferPair_def
        timeDelta_def linkPair_def linkTo_def upt_rec)
  have l: "0 < length transferBatch" and ids: "map ct_id transferBatch = [''t1'', ''t2'', ''t3'']"
    by (simp_all add: transferBatch_def)
  have changed: "markTransfers transferBatch ! 0 \<noteq> transferBatch ! 0"
    by (simp only: v) (simp add: transferBatch_def)
  note pair = markTransfers_symmetric [of transferBatch, THEN conjunct2, THEN spec, THEN mp, OF l]
  from pair changed l v ids show ?thesis
    by (intro conjI)
qed

end
